theory Spec2Isabelle
  imports Main "HOL-Library.AList"
begin

section \<open>Provenance recording: a model of \<^verbatim>\<open>record_provenance.py\<close>\<close>

text \<open>
  The script reads a scenario (a parsed TOML document), asks the container runtime for an
  immutable identifier of every image the scenario names, and writes the identifiers with a
  timestamp as a JSON document.

  Python strings are modelled as \<^typ>\<open>string\<close>; a \<^typ>\<open>char\<close> stands for the code point of
  the same number, so the model covers the strings whose code points are below 256.
  Exceptions are values: a function that can raise returns \<open>py_exception + 'a\<close>, with
  \<open>Inl\<close> for the exception that leaves the function.
\<close>

subsection \<open>Exceptions\<close>

datatype py_exception =
    CalledProcessError int  \<comment> \<open>\<^verbatim>\<open>subprocess.run(check=True)\<close>: the exit status was not zero\<close>
  | ValueError              \<comment> \<open>an argument of the command holds a NUL character\<close>
  | OSError                 \<comment> \<open>the executable could not be started, or a file not opened\<close>
  | UnicodeDecodeError      \<comment> \<open>the captured output is not text in the locale's encoding\<close>
  | KeyError string         \<comment> \<open>subscript of a dict with a key it does not have\<close>
  | TOMLDecodeError         \<comment> \<open>the scenario file is not a TOML document\<close>

subsection \<open>The container runtime and \<^verbatim>\<open>subprocess.run\<close>\<close>

text \<open>
  The runtime is outside the program. It is a parameter of the model: a function from the
  argument vector to what running that command gives. A command that runs gives its exit
  status and its decoded standard output.
\<close>

datatype proc_outcome =
    Exited int string  \<comment> \<open>the exit status (negative: killed by a signal) and the output\<close>
  | SpawnError         \<comment> \<open>the process could not be started\<close>
  | DecodeError        \<comment> \<open>the output could not be decoded (\<^verbatim>\<open>text=True\<close>)\<close>

type_synonym runtime = "string list \<Rightarrow> proc_outcome"

text \<open>
  \<^verbatim>\<open>subprocess.run(args, capture_output=True, text=True, check=True)\<close> returns the completed
  process (of which the script reads \<^verbatim>\<open>stdout\<close> only) when the exit status is zero and
  raises \<^verbatim>\<open>CalledProcessError\<close> otherwise. An argument with a NUL character is refused with
  \<^verbatim>\<open>ValueError\<close> before any process is started.
\<close>

definition subprocess_run :: "runtime \<Rightarrow> string list \<Rightarrow> py_exception + string" where
  "subprocess_run rt args =
     (if list_ex (\<lambda>a. CHR 0x00 \<in> set a) args then Inl ValueError
      else case rt args of
             SpawnError \<Rightarrow> Inl OSError
           | DecodeError \<Rightarrow> Inl UnicodeDecodeError
           | Exited rc out \<Rightarrow> if rc \<noteq> 0 then Inl (CalledProcessError rc) else Inr out)"

subsection \<open>\<^verbatim>\<open>str.strip\<close>\<close>

text \<open>
  The characters \<^verbatim>\<open>str.isspace\<close> accepts, among the code points below 256: tab to carriage
  return, the four separators 0x1C to 0x1F, the space, NEL (0x85) and the no-break
  space (0xA0).
\<close>

definition py_isspace :: "char \<Rightarrow> bool" where
  "py_isspace c =
     (let n = (of_char c :: nat)
      in (9 \<le> n \<and> n \<le> 13) \<or> (28 \<le> n \<and> n \<le> 32) \<or> n = 133 \<or> n = 160)"

definition strip :: "string \<Rightarrow> string" where
  "strip s = rev (dropWhile py_isspace (rev (dropWhile py_isspace s)))"

subsection \<open>\<^verbatim>\<open>get_image_digest\<close>\<close>

definition inspect_cmd :: "string \<Rightarrow> string \<Rightarrow> string list" where
  "inspect_cmd img fmt = [''docker'', ''image'', ''inspect'', img, ''--format'', fmt]"

definition repo_digest_format :: string where
  "repo_digest_format = ''{{index .RepoDigests 0}}''"

definition image_id_format :: string where
  "image_id_format = ''{{.Id}}''"

text \<open>The second \<^verbatim>\<open>try\<close> block: the image ID, or the sentinel when the command fails.\<close>

definition image_id_fallback :: "runtime \<Rightarrow> string \<Rightarrow> py_exception + string" where
  "image_id_fallback rt img =
     (case subprocess_run rt (inspect_cmd img image_id_format) of
        Inr out \<Rightarrow> Inr (strip out)
      | Inl (CalledProcessError rc) \<Rightarrow> Inr (''unknown:'' @ img)
      | Inl e \<Rightarrow> Inl e)"

text \<open>
  The first \<^verbatim>\<open>try\<close> block returns the stripped repo digest when it is not empty. When it is
  empty, or when \<^verbatim>\<open>CalledProcessError\<close> was caught, control reaches the second block. Any other
  exception leaves the function.
\<close>

definition get_image_digest :: "runtime \<Rightarrow> string \<Rightarrow> py_exception + string" where
  "get_image_digest rt img =
     (case subprocess_run rt (inspect_cmd img repo_digest_format) of
        Inr out \<Rightarrow>
          (let digest = strip out
           in if digest \<noteq> [] then Inr digest else image_id_fallback rt img)
      | Inl (CalledProcessError rc) \<Rightarrow> image_id_fallback rt img
      | Inl e \<Rightarrow> Inl e)"

subsection \<open>The scenario\<close>

text \<open>
  \<^verbatim>\<open>tomli.loads\<close> gives nested dicts. The model covers the scenarios whose entries have the
  types the script expects where they are present: \<^verbatim>\<open>green_agent\<close> a table,
  \<^verbatim>\<open>participants\<close> an array of tables, and the fields of these tables strings. A table is a
  map from its keys to its values; an entry that is absent is \<open>None\<close>.
\<close>

type_synonym table = "string \<rightharpoonup> string"

record scenario =
  green_agent :: "table option"
  participants :: "table list option"

text \<open>\<^verbatim>\<open>d[k]\<close> on a dict: the value, or \<^verbatim>\<open>KeyError\<close>.\<close>

definition getitem :: "(string \<rightharpoonup> 'v) \<Rightarrow> string \<Rightarrow> py_exception + 'v" where
  "getitem d k = (case d k of None \<Rightarrow> Inl (KeyError k) | Some v \<Rightarrow> Inr v)"

subsection \<open>\<^verbatim>\<open>collect_image_digests\<close>\<close>

text \<open>
  The result dict keeps its keys in insertion order, so it is an association list:
  \<^verbatim>\<open>digests[name] = v\<close> is \<^const>\<open>AList.update\<close>, which replaces the value of a key that is
  present where it stands and appends a new key at the end.
\<close>

type_synonym digests = "(string \<times> string) list"

text \<open>The \<^verbatim>\<open>for\<close> loop over the participants, with the dict built so far.\<close>

fun collect_participants :: "runtime \<Rightarrow> table list \<Rightarrow> digests \<Rightarrow> py_exception + digests" where
  "collect_participants rt [] digests = Inr digests"
| "collect_participants rt (participant # rest) digests =
     (case getitem participant ''name'' of
        Inl e \<Rightarrow> Inl e
      | Inr name \<Rightarrow>
          (case getitem participant ''image'' of
             Inl e \<Rightarrow> Inl e
           | Inr img \<Rightarrow>
               if img \<noteq> [] then
                 (case get_image_digest rt img of
                    Inl e \<Rightarrow> Inl e
                  | Inr d \<Rightarrow> collect_participants rt rest (AList.update name d digests))
               else collect_participants rt rest digests))"

text \<open>\<^verbatim>\<open>scenario.get("participants", [])\<close>\<close>

definition get_participants :: "scenario \<Rightarrow> table list" where
  "get_participants scenario = (case participants scenario of None \<Rightarrow> [] | Some ps \<Rightarrow> ps)"

definition collect_image_digests :: "runtime \<Rightarrow> scenario \<Rightarrow> py_exception + digests" where
  "collect_image_digests rt scenario =
     (case green_agent scenario of
        None \<Rightarrow> Inl (KeyError ''green_agent'')
      | Some green \<Rightarrow>
          (case getitem green ''image'' of
             Inl e \<Rightarrow> Inl e
           | Inr green_image \<Rightarrow>
               (case get_image_digest rt green_image of
                  Inl e \<Rightarrow> Inl e
                | Inr d \<Rightarrow>
                    collect_participants rt (get_participants scenario)
                      (AList.update ''green_agent'' d []))))"

subsection \<open>Vocabulary of the properties\<close>

text \<open>
  The participant entries that have a name and a non-empty image, as (name, image) pairs
  in the order of the configuration.
\<close>

definition image_entries :: "table list \<Rightarrow> (string \<times> string) list" where
  "image_entries ps =
     concat (map (\<lambda>p. case (p ''name'', p ''image'') of
                         (Some n, Some i) \<Rightarrow> if i \<noteq> [] then [(n, i)] else []
                       | _ \<Rightarrow> []) ps)"

text \<open>The keys of a dict after an assignment to the key \<open>k\<close>: a new key goes last.\<close>

definition insert_key :: "string list \<Rightarrow> string \<Rightarrow> string list" where
  "insert_key ks k = (if k \<in> set ks then ks else ks @ [k])"

subsection \<open>Example inputs\<close>

text \<open>
  A runtime that holds two images: one pulled from a registry, which has a repo digest and
  an ID, and one built locally, which has an ID only (the repo digest template fails on
  it). Every other inspection fails with exit status 1.
\<close>

definition rt_example :: runtime where
  "rt_example args =
     (if args = inspect_cmd ''registry.example/app:1.0'' repo_digest_format
      then Exited 0 (''registry.example/app@sha256:abcd'' @ [CHR 0x0A])
      else if args = inspect_cmd ''registry.example/app:1.0'' image_id_format
      then Exited 0 (''sha256:1234'' @ [CHR 0x0A])
      else if args = inspect_cmd ''local-build:latest'' image_id_format
      then Exited 0 (''sha256:deadbeef'' @ [CHR 0x0A])
      else Exited 1 [])"

text \<open>
  A runtime whose repo digest inspection succeeds and prints an empty line, and whose ID
  inspection prints an ID.
\<close>

definition rt_blank :: runtime where
  "rt_blank args =
     (if last args = repo_digest_format then Exited 0 [CHR 0x0A]
      else Exited 0 (''sha256:deadbeef'' @ [CHR 0x0A]))"

text \<open>The same, with an ID inspection that fails.\<close>

definition rt_blank_then_fail :: runtime where
  "rt_blank_then_fail args =
     (if last args = repo_digest_format then Exited 0 [CHR 0x0A] else Exited 1 [])"

definition entry :: "string \<Rightarrow> string \<Rightarrow> table" where
  "entry n i = [''name'' \<mapsto> n, ''image'' \<mapsto> i]"

definition sc_example :: scenario where
  "sc_example =
     \<lparr>green_agent = Some [''image'' \<mapsto> ''registry.example/app:1.0''],
      participants = Some [entry ''judge'' ''local-build:latest'', entry ''idle'' [],
                           entry ''ghost'' ''gone:1'']\<rparr>"

text \<open>Two participant entries that share a name.\<close>

definition sc_shared_name :: scenario where
  "sc_shared_name =
     \<lparr>green_agent = Some [''image'' \<mapsto> ''registry.example/app:1.0''],
      participants = Some [entry ''judge'' ''local-build:latest'',
                           entry ''judge'' ''registry.example/app:1.0'']\<rparr>"

text \<open>A participant entry whose name is the key of the green agent.\<close>

definition sc_green_named :: scenario where
  "sc_green_named =
     \<lparr>green_agent = Some [''image'' \<mapsto> ''registry.example/app:1.0''],
      participants = Some [entry ''green_agent'' ''local-build:latest'']\<rparr>"

text \<open>Two participant entries whose name is the key of the green agent.\<close>

definition sc_green_named_twice :: scenario where
  "sc_green_named_twice =
     \<lparr>green_agent = Some [''image'' \<mapsto> ''registry.example/app:1.0''],
      participants = Some [entry ''green_agent'' ''local-build:latest'',
                           entry ''green_agent'' ''gone:1'']\<rparr>"

text \<open>A participant entry with a name and no \<^verbatim>\<open>image\<close> field.\<close>

definition sc_no_image :: scenario where
  "sc_no_image =
     \<lparr>green_agent = Some [''image'' \<mapsto> ''registry.example/app:1.0''],
      participants = Some [[''name'' \<mapsto> ''judge'']]\<rparr>"

text \<open>A green agent whose image is the empty string.\<close>

definition sc_empty_green :: scenario where
  "sc_empty_green =
     \<lparr>green_agent = Some [''image'' \<mapsto> []],
      participants = Some [entry ''judge'' ''local-build:latest'']\<rparr>"

definition sc_empty_green_named :: scenario where
  "sc_empty_green_named =
     \<lparr>green_agent = Some [''image'' \<mapsto> []],
      participants = Some [entry ''green_agent'' ''local-build:latest'']\<rparr>"

subsection \<open>Formatting numbers\<close>

definition digit_char :: "nat \<Rightarrow> char" where
  "digit_char d = char_of (48 + d)"

text \<open>\<^verbatim>\<open>str(n)\<close> for a natural number: its decimal digits.\<close>

fun dec :: "nat \<Rightarrow> string" where
  "dec n = (if n < 10 then [digit_char n] else dec (n div 10) @ [digit_char (n mod 10)])"

text \<open>\<^verbatim>\<open>"%0wd" % n\<close>: the decimal digits, padded with zeros on the left to the width \<open>w\<close>.\<close>

definition fmt_d :: "nat \<Rightarrow> nat \<Rightarrow> string" where
  "fmt_d w n = replicate (w - length (dec n)) CHR ''0'' @ dec n"

subsection \<open>The clock and \<^verbatim>\<open>isoformat\<close>\<close>

text \<open>
  What \<^verbatim>\<open>datetime.now(timezone.utc)\<close> returns: the fields of an aware \<^verbatim>\<open>datetime\<close> whose
  offset from UTC is zero.
\<close>

record datetime =
  year :: nat
  month :: nat
  day :: nat
  hour :: nat
  minute :: nat
  second :: nat
  microsecond :: nat

text \<open>
  The ranges the class \<^verbatim>\<open>datetime\<close> keeps its fields in (\<^verbatim>\<open>MINYEAR\<close> is 1 and \<^verbatim>\<open>MAXYEAR\<close>
  is 9999; the class bounds the day by the length of the month, here by 31).
\<close>

definition valid_datetime :: "datetime \<Rightarrow> bool" where
  "valid_datetime dt \<longleftrightarrow>
     1 \<le> year dt \<and> year dt \<le> 9999 \<and> 1 \<le> month dt \<and> month dt \<le> 12 \<and>
     1 \<le> day dt \<and> day dt \<le> 31 \<and> hour dt < 24 \<and> minute dt < 60 \<and> second dt < 60 \<and>
     microsecond dt < 1000000"

text \<open>
  \<^verbatim>\<open>dt.isoformat(timespec="seconds")\<close> for such a value: date, \<^verbatim>\<open>T\<close>, time to the second,
  and the offset from UTC, which is \<^verbatim>\<open>+00:00\<close>.
\<close>

definition isoformat_seconds :: "datetime \<Rightarrow> string" where
  "isoformat_seconds dt =
     fmt_d 4 (year dt) @ ''-'' @ fmt_d 2 (month dt) @ ''-'' @ fmt_d 2 (day dt) @ ''T'' @
     fmt_d 2 (hour dt) @ '':'' @ fmt_d 2 (minute dt) @ '':'' @ fmt_d 2 (second dt) @ ''+00:00''"

subsection \<open>\<^verbatim>\<open>str.replace\<close>\<close>

text \<open>
  \<^verbatim>\<open>s.replace(old, new)\<close> replaces the occurrences of \<open>old\<close> from left to right, each search
  starting after the occurrence replaced before. An empty \<open>old\<close> occurs before every
  character and at the end.
\<close>

function replace_from :: "string \<Rightarrow> string \<Rightarrow> string \<Rightarrow> string" where
  "replace_from old new s =
     (if s = [] \<or> old = [] then s
      else if take (length old) s = old then new @ replace_from old new (drop (length old) s)
      else hd s # replace_from old new (tl s))"
  by pat_completeness auto
termination
  by (relation "measure (\<lambda>(old, new, s). length s)") (auto simp: neq_Nil_conv)

definition str_replace :: "string \<Rightarrow> string \<Rightarrow> string \<Rightarrow> string" where
  "str_replace s old new =
     (if old = [] then new @ concat (map (\<lambda>c. c # new) s) else replace_from old new s)"

subsection \<open>JSON values and \<^verbatim>\<open>json.dump\<close>\<close>

text \<open>
  The values the script serialises: strings, and dicts with string keys (in insertion
  order).
\<close>

datatype json = JString string | JObject "(string \<times> json) list"

definition hex_digit :: "nat \<Rightarrow> char" where
  "hex_digit d = (if d < 10 then char_of (48 + d) else char_of (87 + d))"

text \<open>\<^verbatim>\<open>'\\u{0:04x}'.format(n)\<close> for \<open>n\<close> below 0x10000.\<close>

definition u_escape :: "nat \<Rightarrow> string" where
  "u_escape n =
     [CHR 0x5C, CHR ''u'', hex_digit (n div 4096 mod 16), hex_digit (n div 256 mod 16),
      hex_digit (n div 16 mod 16), hex_digit (n mod 16)]"

text \<open>
  The replacement of one character by \<^verbatim>\<open>py_encode_basestring_ascii\<close> (\<^verbatim>\<open>ensure_ascii\<close> is
  on by default): the backslash, the quotation mark and every character outside the
  range from the space to the tilde are escaped, the others stand for themselves.
\<close>

definition escape_char :: "char \<Rightarrow> string" where
  "escape_char c =
     (let n = (of_char c :: nat)
      in if c = CHR 0x5C then [CHR 0x5C, CHR 0x5C]
         else if c = CHR 0x22 then [CHR 0x5C, CHR 0x22]
         else if n = 8 then [CHR 0x5C, CHR ''b'']
         else if n = 12 then [CHR 0x5C, CHR ''f'']
         else if n = 10 then [CHR 0x5C, CHR ''n'']
         else if n = 13 then [CHR 0x5C, CHR ''r'']
         else if n = 9 then [CHR 0x5C, CHR ''t'']
         else if 32 \<le> n \<and> n \<le> 126 then [c]
         else u_escape n)"

definition encode_string :: "string \<Rightarrow> string" where
  "encode_string s = [CHR 0x22] @ concat (map escape_char s) @ [CHR 0x22]"

text \<open>A line break and the indentation of a nesting level, for \<^verbatim>\<open>indent=2\<close>.\<close>

definition newline_indent :: "nat \<Rightarrow> string" where
  "newline_indent level = CHR 0x0A # replicate (2 * level) CHR '' ''"

text \<open>Python's \<^verbatim>\<open>sep.join(parts)\<close>.\<close>

fun join :: "string \<Rightarrow> string list \<Rightarrow> string" where
  "join sep [] = []"
| "join sep [x] = x"
| "join sep (x # y # ys) = x @ sep @ join sep (y # ys)"

text \<open>
  The text \<^verbatim>\<open>json.dump(obj, f, indent=2)\<close> writes, at a nesting level: an empty dict is
  \<^verbatim>\<open>{}\<close>; the items of another stand one on a line, indented by one level more, with
  \<^verbatim>\<open>,\<close> after each but the last and \<^verbatim>\<open>: \<close> between a key and its value.
\<close>

fun encode :: "nat \<Rightarrow> json \<Rightarrow> string" where
  "encode level (JString s) = encode_string s"
| "encode level (JObject items) =
     (if items = [] then ''{}''
      else ''{'' @ newline_indent (Suc level) @
           join ('','' @ newline_indent (Suc level))
             (map (\<lambda>kv. encode_string (fst kv) @ '': '' @ encode (Suc level) (snd kv)) items) @
           newline_indent level @ ''}'')"

definition json_dumps_indent2 :: "json \<Rightarrow> string" where
  "json_dumps_indent2 obj = encode 0 obj"

subsection \<open>The files, the output stream and the environment\<close>

text \<open>
  A path is modelled by the string \<^verbatim>\<open>str\<close> gives for it. The state of a run is the file
  system and the lines written to the standard output and to the standard error stream.
  The script itself writes to the standard output only; the traceback that the
  interpreter writes to the error stream for an exception that is not caught is not
  modelled.
\<close>

datatype fs_entry = File string | Directory

record world =
  files :: "string \<rightharpoonup> fs_entry"
  stdout :: "string list"
  stderr :: "string list"

text \<open>
  What a run reads from its environment and does not change: the container runtime,
  the TOML parser (a library function), the clock, the paths that
  \<^verbatim>\<open>open(path, "w")\<close> can open, and whether one of the modules \<^verbatim>\<open>tomli\<close> and \<^verbatim>\<open>tomllib\<close> can
  be imported.
\<close>

record env =
  docker :: runtime
  tomli_loads :: "string \<Rightarrow> py_exception + scenario"
  utc_now :: datetime
  writable :: "string \<Rightarrow> bool"
  tomli_importable :: bool

text \<open>The parsed command line: \<^verbatim>\<open>args.scenario\<close> and \<^verbatim>\<open>args.output\<close>.\<close>

record args =
  scenario_arg :: string
  output_arg :: string




subsection \<open>\<^verbatim>\<open>parse_scenario\<close> and \<^verbatim>\<open>write_provenance\<close>\<close>


text \<open>The dict \<^verbatim>\<open>provenance\<close> that \<^verbatim>\<open>write_provenance\<close> builds.\<close>

definition provenance :: "env \<Rightarrow> digests \<Rightarrow> json" where
  "provenance e image_digests =
     JObject
       [(''image_digests'', JObject (map (\<lambda>kv. (fst kv, JString (snd kv))) image_digests)),
        (''timestamp'', JString (str_replace (isoformat_seconds (utc_now e)) ''+00:00'' ''Z''))]"

text \<open>
  \<^verbatim>\<open>open(output_path, "w")\<close> raises \<^verbatim>\<open>OSError\<close> on a directory and on a path that cannot be
  opened for writing; otherwise the file holds the document after the \<^verbatim>\<open>with\<close> block.
\<close>

definition write_provenance :: "env \<Rightarrow> string \<Rightarrow> digests \<Rightarrow> world \<Rightarrow> py_exception + world" where
  "write_provenance e output_path image_digests w =
     (if files w output_path = Some Directory \<or> \<not> writable e output_path then Inl OSError
      else Inr (w\<lparr>files := (files w)(output_path \<mapsto>
                   File (json_dumps_indent2 (provenance e image_digests)))\<rparr>))"

subsection \<open>\<^verbatim>\<open>main\<close> and the script\<close>





subsection \<open>Reading a JSON document\<close>

text \<open>
  What it means for a text to parse as JSON: the grammar of RFC 8259 (which
  \<^verbatim>\<open>json.loads\<close> implements), restricted to the values of type \<^typ>\<open>json\<close>, that is to
  strings and objects. White space is the space, the tab, the line feed and the
  carriage return.
\<close>

definition is_json_ws :: "char \<Rightarrow> bool" where
  "is_json_ws c \<longleftrightarrow> c = CHR '' '' \<or> c = CHR 0x09 \<or> c = CHR 0x0A \<or> c = CHR 0x0D"

definition skip_ws :: "string \<Rightarrow> string" where
  "skip_ws s = dropWhile is_json_ws s"

definition hex_value :: "char \<Rightarrow> nat option" where
  "hex_value c =
     (let n = (of_char c :: nat)
      in if 48 \<le> n \<and> n \<le> 57 then Some (n - 48)
         else if 97 \<le> n \<and> n \<le> 102 then Some (n - 87)
         else if 65 \<le> n \<and> n \<le> 70 then Some (n - 55)
         else None)"

text \<open>The character that a backslash and the character \<open>e\<close> stand for (\<^verbatim>\<open>\u\<close> apart).\<close>

definition simple_escape :: "char \<Rightarrow> char option" where
  "simple_escape e =
     (if e = CHR 0x22 then Some (CHR 0x22)
      else if e = CHR 0x5C then Some (CHR 0x5C)
      else if e = CHR ''/'' then Some (CHR ''/'')
      else if e = CHR ''b'' then Some (CHR 0x08)
      else if e = CHR ''f'' then Some (CHR 0x0C)
      else if e = CHR ''n'' then Some (CHR 0x0A)
      else if e = CHR ''r'' then Some (CHR 0x0D)
      else if e = CHR ''t'' then Some (CHR 0x09)
      else None)"

text \<open>
  The characters of a string after its opening quotation mark: the string they stand for
  and the text after the closing quotation mark. A control character must be escaped. An
  escape \<^verbatim>\<open>\uXXXX\<close> of a code point from 256 on has no value in this model.
\<close>

fun parse_chars :: "string \<Rightarrow> (string \<times> string) option" where
  "parse_chars [] = None"
| "parse_chars (c # cs) =
     (if c = CHR 0x22 then Some ([], cs)
      else if c = CHR 0x5C then
        (case cs of
           [] \<Rightarrow> None
         | e # cs' \<Rightarrow>
             if e = CHR ''u'' then
               (case cs' of
                  h1 # h2 # h3 # h4 # rest \<Rightarrow>
                    (case (hex_value h1, hex_value h2, hex_value h3, hex_value h4) of
                       (Some a, Some b, Some c', Some d) \<Rightarrow>
                         (let n = ((a * 16 + b) * 16 + c') * 16 + d
                          in if n < 256
                             then map_option (\<lambda>(s, r). (char_of n # s, r)) (parse_chars rest)
                             else None)
                     | _ \<Rightarrow> None)
                | _ \<Rightarrow> None)
             else (case simple_escape e of
                     None \<Rightarrow> None
                   | Some x \<Rightarrow> map_option (\<lambda>(s, r). (x # s, r)) (parse_chars cs')))
      else if (of_char c :: nat) < 32 then None
      else map_option (\<lambda>(s, r). (c # s, r)) (parse_chars cs))"

text \<open>
  A value, and the members of an object from the first character of a key on. The first
  argument bounds the depth of the recursion: every call reads at least one character,
  so one more than the length of the text is enough (see \<open>json_loads\<close>). As
  \<^verbatim>\<open>json.loads\<close> does, a key that occurs twice keeps its first place and its last value.
\<close>

fun parse_value :: "nat \<Rightarrow> string \<Rightarrow> (json \<times> string) option"
  and parse_members :: "nat \<Rightarrow> string \<Rightarrow> (string \<times> json) list \<Rightarrow> (json \<times> string) option" where
  "parse_value 0 s = None"
| "parse_value (Suc fuel) s =
     (case skip_ws s of
        [] \<Rightarrow> None
      | c # cs \<Rightarrow>
          if c = CHR 0x22 then map_option (\<lambda>(x, r). (JString x, r)) (parse_chars cs)
          else if c = CHR ''{'' then
            (case skip_ws cs of
               [] \<Rightarrow> None
             | d # ds \<Rightarrow>
                 if d = CHR ''}'' then Some (JObject [], ds)
                 else parse_members fuel (d # ds) [])
          else None)"
| "parse_members 0 s items = None"
| "parse_members (Suc fuel) s items =
     (case s of
        [] \<Rightarrow> None
      | c # cs \<Rightarrow>
          if c \<noteq> CHR 0x22 then None
          else
            (case parse_chars cs of
               None \<Rightarrow> None
             | Some (k, r1) \<Rightarrow>
                 (case skip_ws r1 of
                    [] \<Rightarrow> None
                  | c1 # r2 \<Rightarrow>
                      if c1 \<noteq> CHR '':'' then None
                      else
                        (case parse_value fuel r2 of
                           None \<Rightarrow> None
                         | Some (v, r3) \<Rightarrow>
                             (case skip_ws r3 of
                                [] \<Rightarrow> None
                              | c2 # r4 \<Rightarrow>
                                  if c2 = CHR '','' then
                                    parse_members fuel (skip_ws r4) (AList.update k v items)
                                  else if c2 = CHR ''}'' then
                                    Some (JObject (AList.update k v items), r4)
                                  else None)))))"

text \<open>The value of a whole document: one value, with white space around it.\<close>

definition json_loads :: "string \<Rightarrow> json option" where
  "json_loads s =
     (case parse_value (Suc (length s)) s of
        None \<Rightarrow> None
      | Some (v, rest) \<Rightarrow> if skip_ws rest = [] then Some v else None)"

subsection \<open>The pattern of the timestamp\<close>

text \<open>
  The regular expression \<^verbatim>\<open>^\d{4}-\d{2}-\d{2}T\d{2}:\d{2}:\d{2}Z$\<close> is a sequence of
  one-character patterns, a decimal digit or a literal character each, that the whole
  string has to match.
\<close>

datatype pat = Digit | Lit char

definition is_digit :: "char \<Rightarrow> bool" where
  "is_digit c \<longleftrightarrow> 48 \<le> (of_char c :: nat) \<and> (of_char c :: nat) \<le> 57"

fun pat_matches :: "pat \<Rightarrow> char \<Rightarrow> bool" where
  "pat_matches Digit c = is_digit c"
| "pat_matches (Lit l) c = (c = l)"

definition timestamp_pattern :: "pat list" where
  "timestamp_pattern =
     replicate 4 Digit @ [Lit CHR ''-''] @ replicate 2 Digit @ [Lit CHR ''-''] @
     replicate 2 Digit @ [Lit CHR ''T''] @ replicate 2 Digit @ [Lit CHR '':''] @
     replicate 2 Digit @ [Lit CHR '':''] @ replicate 2 Digit @ [Lit CHR ''Z'']"

definition is_timestamp :: "string \<Rightarrow> bool" where
  "is_timestamp s = list_all2 pat_matches timestamp_pattern s"

subsection \<open>An example run\<close>

text \<open>
  An environment with the example runtime, a TOML parser that reads the example scenario
  from every text, a clock, and no path that cannot be written.
\<close>

definition env_example :: env where
  "env_example =
     \<lparr>docker = rt_example,
      tomli_loads = (\<lambda>text. Inr sc_example),
      utc_now = \<lparr>year = 2026, month = 11, day = 4, hour = 9, minute = 5, second = 7,
                 microsecond = 123456\<rparr>,
      writable = (\<lambda>path. True),
      tomli_importable = True\<rparr>"



definition world_empty :: world where
  "world_empty = \<lparr>files = Map.empty, stdout = [], stderr = []\<rparr>"

section \<open>Properties\<close>

subsection \<open>The digest resolver\<close>

lemma subprocess_run_Inr:
  "subprocess_run rt args = Inr out \<longleftrightarrow>
     \<not> list_ex (\<lambda>a. CHR 0x00 \<in> set a) args \<and> rt args = Exited 0 out"
  by (auto simp: subprocess_run_def split: proc_outcome.splits)

lemma subprocess_run_CalledProcessError:
  "subprocess_run rt args = Inl (CalledProcessError rc) \<longleftrightarrow>
     \<not> list_ex (\<lambda>a. CHR 0x00 \<in> set a) args \<and> rc \<noteq> 0 \<and> (\<exists>out. rt args = Exited rc out)"
  by (auto simp: subprocess_run_def split: proc_outcome.splits)

lemma digest_example:
  "get_image_digest rt_example ''registry.example/app:1.0'' = Inr ''registry.example/app@sha256:abcd''"
  "get_image_digest rt_example ''local-build:latest'' = Inr ''sha256:deadbeef''"
  "get_image_digest rt_example ''gone:1'' = Inr ''unknown:gone:1''"
  "get_image_digest rt_example [] = Inr ''unknown:''"
  by (simp_all add: get_image_digest_def image_id_fallback_def subprocess_run_def inspect_cmd_def
      rt_example_def repo_digest_format_def image_id_format_def strip_def py_isspace_def)

text \<open>
  C1 (as amended). An inspection "succeeds" when \<^const>\<open>subprocess_run\<close> returns its output
  (exit status zero), and "fails with a non-zero exit status" when it raises
  \<^verbatim>\<open>CalledProcessError\<close>. For every image reference:
  \<^item> when the repo digest inspection succeeds and its output is not empty once stripped,
    the resolver returns the stripped output;
  \<^item> when the repo digest inspection succeeds with an output that is empty once stripped,
    or fails with a non-zero exit status, and the ID inspection succeeds, the resolver
    returns the stripped output of the ID inspection, empty or not;
  \<^item> when, in that case, the ID inspection fails with a non-zero exit status, the resolver
    returns \<^verbatim>\<open>unknown:\<close> followed by the image reference; so it does when both fail.
\<close>

theorem get_image_digest_fallback:
  "(subprocess_run rt (inspect_cmd img repo_digest_format) = Inr repo_out \<and> strip repo_out \<noteq> []
      \<longrightarrow> get_image_digest rt img = Inr (strip repo_out))
   \<and> ((subprocess_run rt (inspect_cmd img repo_digest_format) = Inr repo_out \<and> strip repo_out = []
        \<or> subprocess_run rt (inspect_cmd img repo_digest_format) = Inl (CalledProcessError rc))
       \<and> subprocess_run rt (inspect_cmd img image_id_format) = Inr id_out
      \<longrightarrow> get_image_digest rt img = Inr (strip id_out))
   \<and> ((subprocess_run rt (inspect_cmd img repo_digest_format) = Inr repo_out \<and> strip repo_out = []
        \<or> subprocess_run rt (inspect_cmd img repo_digest_format) = Inl (CalledProcessError rc))
       \<and> subprocess_run rt (inspect_cmd img image_id_format) = Inl (CalledProcessError rc')
      \<longrightarrow> get_image_digest rt img = Inr (''unknown:'' @ img))"
  by (auto simp: get_image_digest_def image_id_fallback_def)

theorem get_image_digest_fallback_witness:
  "get_image_digest rt_example ''registry.example/app:1.0'' = Inr ''registry.example/app@sha256:abcd''
   \<and> get_image_digest rt_example ''local-build:latest'' = Inr ''sha256:deadbeef''
   \<and> get_image_digest rt_example ''gone:1'' = Inr ''unknown:gone:1''"
proof -
  have pulled: "subprocess_run rt_example (inspect_cmd ''registry.example/app:1.0'' repo_digest_format)
      = Inr (''registry.example/app@sha256:abcd'' @ [CHR 0x0A])"
    by (simp add: subprocess_run_def inspect_cmd_def rt_example_def repo_digest_format_def)
  have local1: "subprocess_run rt_example (inspect_cmd ''local-build:latest'' repo_digest_format)
      = Inl (CalledProcessError 1)"
    by (simp add: subprocess_run_def inspect_cmd_def rt_example_def repo_digest_format_def
        image_id_format_def)
  have local2: "subprocess_run rt_example (inspect_cmd ''local-build:latest'' image_id_format)
      = Inr (''sha256:deadbeef'' @ [CHR 0x0A])"
    by (simp add: subprocess_run_def inspect_cmd_def rt_example_def repo_digest_format_def
        image_id_format_def)
  have gone: "subprocess_run rt_example (inspect_cmd ''gone:1'' repo_digest_format)
      = Inl (CalledProcessError 1)"
    "subprocess_run rt_example (inspect_cmd ''gone:1'' image_id_format)
      = Inl (CalledProcessError 1)"
    by (simp_all add: subprocess_run_def inspect_cmd_def rt_example_def repo_digest_format_def
        image_id_format_def)
  have stripped: "strip (''registry.example/app@sha256:abcd'' @ [CHR 0x0A])
      = ''registry.example/app@sha256:abcd''"
    "strip (''sha256:deadbeef'' @ [CHR 0x0A]) = ''sha256:deadbeef''"
    by (simp_all add: strip_def py_isspace_def)
  show ?thesis
    using get_image_digest_fallback
            [where rt = rt_example and img = "''registry.example/app:1.0''"
               and repo_out = "''registry.example/app@sha256:abcd'' @ [CHR 0x0A]"]
          get_image_digest_fallback
            [where rt = rt_example and img = "''local-build:latest''" and rc = 1
               and id_out = "''sha256:deadbeef'' @ [CHR 0x0A]"]
          get_image_digest_fallback
            [where rt = rt_example and img = "''gone:1''" and rc = 1 and rc' = 1]
          pulled local1 local2 gone stripped
    by simp
qed

text \<open>
  C1 as the specification words it fails where the repo digest inspection succeeds and
  prints only white space: the output is not empty, yet the resolver does not return it
  stripped; it goes on to the ID inspection.
\<close>

theorem get_image_digest_fallback_counterexample:
  "subprocess_run rt_blank (inspect_cmd ''local-build:latest'' repo_digest_format) = Inr [CHR 0x0A]
   \<and> [CHR 0x0A] \<noteq> ''''
   \<and> get_image_digest rt_blank ''local-build:latest'' = Inr ''sha256:deadbeef''
   \<and> get_image_digest rt_blank ''local-build:latest'' \<noteq> Inr (strip [CHR 0x0A])"
  by (simp add: get_image_digest_def image_id_fallback_def subprocess_run_def inspect_cmd_def
      rt_blank_def repo_digest_format_def image_id_format_def strip_def py_isspace_def)

text \<open>
  C3 (as amended). For every image reference with no NUL character for which each
  inspection the resolver makes runs and ends with an exit status, the resolver returns a
  string: the stripped repo digest when that inspection exits with zero and prints more
  than white space; otherwise the stripped output of the ID inspection when that exits
  with zero; otherwise the sentinel. An image reference that holds a NUL character makes
  the resolver raise \<^verbatim>\<open>ValueError\<close>.
\<close>

theorem get_image_digest_returns:
  "(CHR 0x00 \<notin> set img
    \<and> rt (inspect_cmd img repo_digest_format) = Exited rc repo_out
    \<and> (rc = 0 \<and> strip repo_out \<noteq> [] \<or> rt (inspect_cmd img image_id_format) = Exited rc' id_out)
    \<longrightarrow> get_image_digest rt img =
          Inr (if rc = 0 \<and> strip repo_out \<noteq> [] then strip repo_out
               else if rc' = 0 then strip id_out
               else ''unknown:'' @ img))
   \<and> (CHR 0x00 \<in> set img \<longrightarrow> get_image_digest rt img = Inl ValueError)"
  by (auto simp: get_image_digest_def image_id_fallback_def subprocess_run_def inspect_cmd_def
      repo_digest_format_def image_id_format_def)

theorem get_image_digest_returns_witness:
  "CHR 0x00 \<notin> set ''gone:1''
   \<and> rt_example (inspect_cmd ''gone:1'' repo_digest_format) = Exited 1 []
   \<and> rt_example (inspect_cmd ''gone:1'' image_id_format) = Exited 1 []
   \<and> get_image_digest rt_example ''gone:1'' = Inr ''unknown:gone:1''
   \<and> CHR 0x00 \<in> set (''app'' @ [CHR 0x00])
   \<and> get_image_digest rt_example (''app'' @ [CHR 0x00]) = Inl ValueError"
proof -
  have ran: "rt_example (inspect_cmd ''gone:1'' repo_digest_format) = Exited 1 []"
    "rt_example (inspect_cmd ''gone:1'' image_id_format) = Exited 1 []"
    by (simp_all add: inspect_cmd_def rt_example_def)
  show ?thesis
    using get_image_digest_returns
            [where rt = rt_example and img = "''gone:1''" and rc = 1 and rc' = 1
               and repo_out = "[]" and id_out = "[]"]
          get_image_digest_returns [where rt = rt_example and img = "''app'' @ [CHR 0x00]"]
          ran
    by simp
qed

text \<open>
  C3 as the specification words it fails at an image reference with a NUL character:
  \<^verbatim>\<open>subprocess.run\<close> raises \<^verbatim>\<open>ValueError\<close>, which the resolver does not catch. It fails
  also where the sentinel is returned although the first inspection did not fail: it
  exited with zero and printed an empty line.
\<close>

theorem get_image_digest_returns_counterexample:
  "get_image_digest rt_example (''app'' @ [CHR 0x00]) = Inl ValueError
   \<and> rt_blank_then_fail (inspect_cmd ''app'' repo_digest_format) = Exited 0 [CHR 0x0A]
   \<and> get_image_digest rt_blank_then_fail ''app'' = Inr ''unknown:app''"
  by (simp add: get_image_digest_def image_id_fallback_def subprocess_run_def inspect_cmd_def
      rt_blank_then_fail_def repo_digest_format_def image_id_format_def strip_def py_isspace_def)

subsection \<open>The digest collector\<close>

lemma collect_participants_append:
  "collect_participants rt (xs @ ys) acc =
     (case collect_participants rt xs acc of
        Inl e \<Rightarrow> Inl e
      | Inr m \<Rightarrow> collect_participants rt ys m)"
  by (induction xs arbitrary: acc) (auto split: sum.splits)

lemma keys_update:
  "fst ` set (AList.update k v al) = insert k (fst ` set al)"
  by (induction al) auto

lemma collect_participants_keys:
  "collect_participants rt ps acc = Inr digests \<Longrightarrow>
     fst ` set digests =
       fst ` set acc \<union> {n. \<exists>p\<in>set ps. p ''name'' = Some n \<and> (\<exists>i. p ''image'' = Some i \<and> i \<noteq> [])}"
proof (induction ps arbitrary: acc)
  case Nil
  then show ?case by simp
next
  case (Cons p ps)
  then show ?case
    by (auto simp: getitem_def keys_update split: sum.splits option.splits if_splits)
qed

lemma collect_participants_skip_empty:
  "collect_participants rt ps acc = Inr digests \<Longrightarrow>
     collect_participants rt (filter (\<lambda>p. p ''image'' \<noteq> Some []) ps) acc = Inr digests"
  by (induction ps arbitrary: acc)
     (auto simp: getitem_def split: sum.splits option.splits if_splits)

lemma collect_participants_total:
  "\<forall>p\<in>set ps. \<exists>n i. p ''name'' = Some n \<and> p ''image'' = Some i \<and>
       (i \<noteq> [] \<longrightarrow> (\<exists>d. get_image_digest rt i = Inr d)) \<Longrightarrow>
   \<exists>digests. collect_participants rt ps acc = Inr digests"
  by (induction ps arbitrary: acc)
     (auto simp: getitem_def split: sum.splits option.splits if_splits)

lemma collect_participants_distinct:
  "collect_participants rt ps acc = Inr digests \<Longrightarrow> distinct (map fst acc) \<Longrightarrow>
     distinct (map fst digests)"
  by (induction ps arbitrary: acc)
     (auto simp: getitem_def distinct_update split: sum.splits option.splits if_splits)

lemma collect_participants_untouched:
  "collect_participants rt ps acc = Inr digests \<Longrightarrow>
   \<forall>p\<in>set ps. p ''name'' = Some n \<longrightarrow> p ''image'' = Some [] \<Longrightarrow>
     map_of digests n = map_of acc n"
proof (induction ps arbitrary: acc)
  case Nil
  then show ?case by simp
next
  case (Cons p ps)
  then show ?case
    by (auto simp: getitem_def update_conv' split: sum.splits option.splits if_splits)
qed

lemma collect_participants_last_write:
  assumes "collect_participants rt (before @ [p] @ after) acc = Inr digests"
    and "p ''name'' = Some n" and "p ''image'' = Some i" and "i \<noteq> []"
    and "\<forall>q\<in>set after. q ''name'' = Some n \<longrightarrow> q ''image'' = Some []"
  shows "\<exists>d. get_image_digest rt i = Inr d \<and> map_of digests n = Some d"
proof -
  from assms(1) obtain m where m: "collect_participants rt before acc = Inr m"
    and rest: "collect_participants rt ([p] @ after) m = Inr digests"
    by (auto simp: collect_participants_append split: sum.splits)
  from rest assms(2-4) obtain d where d: "get_image_digest rt i = Inr d"
    and after: "collect_participants rt after (AList.update n d m) = Inr digests"
    by (auto simp: getitem_def split: sum.splits)
  from collect_participants_untouched[OF after assms(5)]
  have "map_of digests n = Some d" by (simp add: update_conv')
  with d show ?thesis by blast
qed

lemma image_entries_simps:
  "image_entries [] = []"
  "image_entries (p # ps) =
     (case (p ''name'', p ''image'') of
        (Some n, Some i) \<Rightarrow> if i \<noteq> [] then (n, i) # image_entries ps else image_entries ps
      | _ \<Rightarrow> image_entries ps)"
  by (auto simp: image_entries_def split: option.splits)

lemma set_image_entries:
  "(n, i) \<in> set (image_entries ps) \<longleftrightarrow>
     (\<exists>p\<in>set ps. p ''name'' = Some n \<and> p ''image'' = Some i \<and> i \<noteq> [])"
  by (induction ps) (auto simp: image_entries_simps split: option.splits)

lemma keys_update_insert_key: "map fst (AList.update k v al) = insert_key (map fst al) k"
  by (simp add: update_keys insert_key_def)

lemma collect_participants_key_order:
  "collect_participants rt ps acc = Inr digests \<Longrightarrow>
     map fst digests = foldl insert_key (map fst acc) (map fst (image_entries ps))"
  by (induction ps arbitrary: acc)
     (auto simp: getitem_def image_entries_simps keys_update_insert_key
           split: sum.splits option.splits if_splits)

lemma collect_participants_fold:
  "collect_participants rt ps acc = Inr digests \<Longrightarrow>
     \<exists>ds. list_all2 (\<lambda>e d. get_image_digest rt (snd e) = Inr d) (image_entries ps) ds \<and>
          digests = fold (\<lambda>(k, v). AList.update k v) (zip (map fst (image_entries ps)) ds) acc"
proof (induction ps arbitrary: acc)
  case Nil
  then show ?case by (simp add: image_entries_simps)
next
  case (Cons p ps)
  from Cons.prems obtain n i where n: "p ''name'' = Some n" and i: "p ''image'' = Some i"
    by (auto simp: getitem_def split: sum.splits option.splits)
  show ?case
  proof (cases "i = []")
    case True
    with Cons.prems n i have "collect_participants rt ps acc = Inr digests"
      by (simp add: getitem_def)
    from Cons.IH[OF this] show ?thesis using n i True by (simp add: image_entries_simps)
  next
    case False
    with Cons.prems n i obtain d where d: "get_image_digest rt i = Inr d"
      and rest: "collect_participants rt ps (AList.update n d acc) = Inr digests"
      by (auto simp: getitem_def split: sum.splits)
    from Cons.IH[OF rest] obtain ds where
      ds: "list_all2 (\<lambda>e d. get_image_digest rt (snd e) = Inr d) (image_entries ps) ds"
      and eq: "digests = fold (\<lambda>(k, v). AList.update k v) (zip (map fst (image_entries ps)) ds)
                 (AList.update n d acc)"
      by blast
    have "list_all2 (\<lambda>e d. get_image_digest rt (snd e) = Inr d) (image_entries (p # ps)) (d # ds)"
      using n i False d ds by (simp add: image_entries_simps)
    moreover have "digests = fold (\<lambda>(k, v). AList.update k v)
                     (zip (map fst (image_entries (p # ps))) (d # ds)) acc"
      using n i False eq by (simp add: image_entries_simps)
    ultimately show ?thesis by blast
  qed
qed

lemma foldl_insert_key_distinct:
  "distinct (ks @ xs) \<Longrightarrow> foldl insert_key ks xs = ks @ xs"
  by (induction xs arbitrary: ks) (auto simp: insert_key_def)

lemma foldl_insert_key_prefix: "\<exists>zs. foldl insert_key ks xs = ks @ zs"
proof (induction xs arbitrary: ks)
  case Nil
  then show ?case by simp
next
  case (Cons x xs)
  obtain ys where ys: "insert_key ks x = ks @ ys"
    by (cases "x \<in> set ks") (simp_all add: insert_key_def)
  from Cons[of "insert_key ks x"] obtain zs where
    "foldl insert_key (insert_key ks x) xs = insert_key ks x @ zs"
    by blast
  with ys have "foldl insert_key ks (x # xs) = ks @ (ys @ zs)" by simp
  then show ?case by blast
qed

lemma collect_image_digests_Inr:
  "collect_image_digests rt sc = Inr digests \<longleftrightarrow>
     (\<exists>green gi dg. green_agent sc = Some green \<and> green ''image'' = Some gi \<and>
        get_image_digest rt gi = Inr dg \<and>
        collect_participants rt (get_participants sc) [(''green_agent'', dg)] = Inr digests)"
  by (auto simp: collect_image_digests_def getitem_def split: option.splits sum.splits)

lemma collect_example:
  "collect_image_digests rt_example sc_example =
     Inr [(''green_agent'', ''registry.example/app@sha256:abcd''), (''judge'', ''sha256:deadbeef''),
          (''ghost'', ''unknown:gone:1'')]"
  by (simp add: collect_image_digests_def get_participants_def sc_example_def getitem_def
      entry_def digest_example)

lemma collect_shared_name:
  "collect_image_digests rt_example sc_shared_name =
     Inr [(''green_agent'', ''registry.example/app@sha256:abcd''),
          (''judge'', ''registry.example/app@sha256:abcd'')]"
  by (simp add: collect_image_digests_def get_participants_def sc_shared_name_def getitem_def
      entry_def digest_example)

lemma collect_green_named:
  "collect_image_digests rt_example sc_green_named = Inr [(''green_agent'', ''sha256:deadbeef'')]"
  by (simp add: collect_image_digests_def get_participants_def sc_green_named_def getitem_def
      entry_def digest_example)

lemma collect_green_named_twice:
  "collect_image_digests rt_example sc_green_named_twice = Inr [(''green_agent'', ''unknown:gone:1'')]"
  by (simp add: collect_image_digests_def get_participants_def sc_green_named_twice_def
      getitem_def entry_def digest_example)

lemma collect_empty_green:
  "collect_image_digests rt_example sc_empty_green =
     Inr [(''green_agent'', ''unknown:''), (''judge'', ''sha256:deadbeef'')]"
  by (simp add: collect_image_digests_def get_participants_def sc_empty_green_def getitem_def
      entry_def digest_example)

lemma collect_empty_green_named:
  "collect_image_digests rt_example sc_empty_green_named =
     Inr [(''green_agent'', ''sha256:deadbeef'')]"
  by (simp add: collect_image_digests_def get_participants_def sc_empty_green_named_def
      getitem_def entry_def digest_example)

text \<open>
  C2. (1) Collection returns a mapping for every scenario that has a \<^verbatim>\<open>green_agent\<close> table
  with an \<^verbatim>\<open>image\<close>, whose participant entries have a \<^verbatim>\<open>name\<close> and an \<^verbatim>\<open>image\<close>, and
  whose images the resolver resolves. (2) Every mapping that collection returns has the
  key \<^verbatim>\<open>green_agent\<close>; it has the name of every participant entry with a non-empty image
  as a key; it has no other key; and the entries whose image is the empty string contribute
  nothing: collection returns the same mapping for the scenario without them.
\<close>

theorem collect_image_digests_keys:
  "(green_agent sc = Some green \<and> green ''image'' = Some gi \<and>
    (\<exists>d. get_image_digest rt gi = Inr d) \<and>
    (\<forall>p\<in>set (get_participants sc). \<exists>n i. p ''name'' = Some n \<and> p ''image'' = Some i \<and>
        (i \<noteq> [] \<longrightarrow> (\<exists>d. get_image_digest rt i = Inr d)))
    \<longrightarrow> (\<exists>ds. collect_image_digests rt sc = Inr ds))
   \<and> (collect_image_digests rt sc = Inr digests \<longrightarrow>
        ''green_agent'' \<in> fst ` set digests
      \<and> (\<forall>p\<in>set (get_participants sc). \<forall>n i.
            p ''name'' = Some n \<and> p ''image'' = Some i \<and> i \<noteq> [] \<longrightarrow> n \<in> fst ` set digests)
      \<and> fst ` set digests =
          insert ''green_agent'' {n. \<exists>p\<in>set (get_participants sc).
             p ''name'' = Some n \<and> (\<exists>i. p ''image'' = Some i \<and> i \<noteq> [])}
      \<and> collect_image_digests rt
          (sc\<lparr>participants := Some (filter (\<lambda>p. p ''image'' \<noteq> Some []) (get_participants sc))\<rparr>)
          = Inr digests)"
proof (intro conjI impI)
  assume a: "green_agent sc = Some green \<and> green ''image'' = Some gi \<and>
    (\<exists>d. get_image_digest rt gi = Inr d) \<and>
    (\<forall>p\<in>set (get_participants sc). \<exists>n i. p ''name'' = Some n \<and> p ''image'' = Some i \<and>
        (i \<noteq> [] \<longrightarrow> (\<exists>d. get_image_digest rt i = Inr d)))"
  then obtain d where d: "get_image_digest rt gi = Inr d" by blast
  from a collect_participants_total[of "get_participants sc" rt "[(''green_agent'', d)]"]
  obtain ds where "collect_participants rt (get_participants sc) [(''green_agent'', d)] = Inr ds"
    by blast
  with a d show "\<exists>ds. collect_image_digests rt sc = Inr ds"
    by (auto simp: collect_image_digests_Inr)
next
  assume "collect_image_digests rt sc = Inr digests"
  then obtain green gi dg where g: "green_agent sc = Some green" "green ''image'' = Some gi"
    "get_image_digest rt gi = Inr dg"
    and c: "collect_participants rt (get_participants sc) [(''green_agent'', dg)] = Inr digests"
    by (auto simp: collect_image_digests_Inr)
  note keys = collect_participants_keys[OF c]
  show "''green_agent'' \<in> fst ` set digests" using keys by simp
  show "\<forall>p\<in>set (get_participants sc). \<forall>n i.
      p ''name'' = Some n \<and> p ''image'' = Some i \<and> i \<noteq> [] \<longrightarrow> n \<in> fst ` set digests"
    unfolding keys by blast
  show "fst ` set digests =
          insert ''green_agent'' {n. \<exists>p\<in>set (get_participants sc).
             p ''name'' = Some n \<and> (\<exists>i. p ''image'' = Some i \<and> i \<noteq> [])}"
    using keys by simp
  from collect_participants_skip_empty[OF c] g
  show "collect_image_digests rt
          (sc\<lparr>participants := Some (filter (\<lambda>p. p ''image'' \<noteq> Some []) (get_participants sc))\<rparr>)
          = Inr digests"
    by (simp add: collect_image_digests_Inr get_participants_def)
qed

theorem collect_image_digests_keys_witness:
  "collect_image_digests rt_example sc_example =
     Inr [(''green_agent'', ''registry.example/app@sha256:abcd''), (''judge'', ''sha256:deadbeef''),
          (''ghost'', ''unknown:gone:1'')]
   \<and> entry ''judge'' ''local-build:latest'' \<in> set (get_participants sc_example)
   \<and> entry ''idle'' [] \<in> set (get_participants sc_example)
   \<and> ''green_agent'' \<in> fst ` set [(''green_agent'', ''registry.example/app@sha256:abcd''),
          (''judge'', ''sha256:deadbeef''), (''ghost'', ''unknown:gone:1'')]
   \<and> ''judge'' \<in> fst ` set [(''green_agent'', ''registry.example/app@sha256:abcd''),
          (''judge'', ''sha256:deadbeef''), (''ghost'', ''unknown:gone:1'')]
   \<and> ''idle'' \<notin> fst ` set [(''green_agent'', ''registry.example/app@sha256:abcd''),
          (''judge'', ''sha256:deadbeef''), (''ghost'', ''unknown:gone:1'')]
   \<and> collect_image_digests rt_example
        (sc_example\<lparr>participants := Some [entry ''judge'' ''local-build:latest'',
                                           entry ''ghost'' ''gone:1'']\<rparr>) =
     Inr [(''green_agent'', ''registry.example/app@sha256:abcd''), (''judge'', ''sha256:deadbeef''),
          (''ghost'', ''unknown:gone:1'')]"
proof -
  have ps: "get_participants sc_example =
      [entry ''judge'' ''local-build:latest'', entry ''idle'' [], entry ''ghost'' ''gone:1'']"
    by (simp add: get_participants_def sc_example_def)
  have img: "entry ''judge'' ''local-build:latest'' ''image'' = Some ''local-build:latest''"
    "entry ''idle'' [] ''image'' = Some []" "entry ''ghost'' ''gone:1'' ''image'' = Some ''gone:1''"
    by (simp_all add: entry_def)
  have nm: "entry ''judge'' ''local-build:latest'' ''name'' = Some ''judge''"
    "entry ''idle'' [] ''name'' = Some ''idle''" "entry ''ghost'' ''gone:1'' ''name'' = Some ''ghost''"
    by (simp_all add: entry_def)
  have total: "\<exists>ds. collect_image_digests rt_example sc_example = Inr ds"
    using collect_image_digests_keys
            [where rt = rt_example and sc = sc_example
               and green = "[''image'' \<mapsto> ''registry.example/app:1.0'']"
               and gi = "''registry.example/app:1.0''", THEN conjunct1]
    by (simp add: ps img nm digest_example) (simp add: sc_example_def)
  show ?thesis
    using collect_image_digests_keys
            [where rt = rt_example and sc = sc_example
               and digests = "[(''green_agent'', ''registry.example/app@sha256:abcd''),
                  (''judge'', ''sha256:deadbeef''), (''ghost'', ''unknown:gone:1'')]",
             THEN conjunct2]
          collect_example total
    by (simp add: ps img nm)
qed

text \<open>
  C4. Let the participant list be \<open>before @ [later] @ after\<close>, where \<open>later\<close> has the
  name \<open>n\<close> and a non-empty image and no entry of \<open>after\<close> with the name \<open>n\<close> has a
  non-empty image; the earlier entries of that name are in \<open>before\<close>. Every mapping that
  collection returns maps \<open>n\<close> to the digest of the image of \<open>later\<close>. Nothing records the
  earlier entries: the keys of the mapping are distinct.
\<close>

theorem collect_image_digests_last_write_wins:
  assumes "collect_image_digests rt sc = Inr digests"
    and "get_participants sc = before @ [later] @ after"
    and "later ''name'' = Some n" and "later ''image'' = Some i" and "i \<noteq> []"
    and "\<forall>q\<in>set after. q ''name'' = Some n \<longrightarrow> q ''image'' = Some []"
  shows "(\<exists>d. get_image_digest rt i = Inr d \<and> map_of digests n = Some d)
         \<and> distinct (map fst digests)"
proof -
  from assms(1) obtain dg where
    c: "collect_participants rt (get_participants sc) [(''green_agent'', dg)] = Inr digests"
    by (auto simp: collect_image_digests_Inr)
  from collect_participants_last_write[OF c[unfolded assms(2)] assms(3-6)]
    collect_participants_distinct[OF c]
  show ?thesis by simp
qed

theorem collect_image_digests_last_write_wins_witness:
  "collect_image_digests rt_example sc_shared_name =
     Inr [(''green_agent'', ''registry.example/app@sha256:abcd''),
          (''judge'', ''registry.example/app@sha256:abcd'')]
   \<and> get_participants sc_shared_name =
       [entry ''judge'' ''local-build:latest''] @ [entry ''judge'' ''registry.example/app:1.0''] @ []
   \<and> entry ''judge'' ''local-build:latest'' ''name'' = Some ''judge''
   \<and> entry ''judge'' ''registry.example/app:1.0'' ''name'' = Some ''judge''
   \<and> get_image_digest rt_example ''local-build:latest'' = Inr ''sha256:deadbeef''
   \<and> get_image_digest rt_example ''registry.example/app:1.0'' = Inr ''registry.example/app@sha256:abcd''
   \<and> map_of [(''green_agent'', ''registry.example/app@sha256:abcd''),
          (''judge'', ''registry.example/app@sha256:abcd'')] ''judge''
       = Some ''registry.example/app@sha256:abcd''"
proof -
  have ps: "get_participants sc_shared_name =
      [entry ''judge'' ''local-build:latest''] @ [entry ''judge'' ''registry.example/app:1.0''] @ []"
    by (simp add: get_participants_def sc_shared_name_def)
  have later: "entry ''judge'' ''registry.example/app:1.0'' ''name'' = Some ''judge''"
    "entry ''judge'' ''registry.example/app:1.0'' ''image'' = Some ''registry.example/app:1.0''"
    "''registry.example/app:1.0'' \<noteq> []"
    "\<forall>q\<in>set []. q ''name'' = Some ''judge'' \<longrightarrow> q ''image'' = Some []"
    by (simp_all add: entry_def)
  from collect_image_digests_last_write_wins[OF collect_shared_name ps later]
  show ?thesis
    using collect_shared_name ps by (simp add: entry_def digest_example)
qed

text \<open>
  C7. Every mapping that collection returns is the result of the assignments
  \<^verbatim>\<open>digests[key] = digest\<close> made in this order on the empty dict: first the key
  \<^verbatim>\<open>green_agent\<close>, then the name of each participant entry with a non-empty image, in the
  order of the configuration, each with the digest of its image. So the keys of the
  mapping, in insertion order, are these keys with each kept where it first occurs;
  \<^verbatim>\<open>green_agent\<close> is the first key; and where the names are distinct and none is
  \<^verbatim>\<open>green_agent\<close>, the keys are \<^verbatim>\<open>green_agent\<close> and then the names.
\<close>

theorem collect_image_digests_insertion_order:
  assumes "collect_image_digests rt sc = Inr digests"
  shows "(\<exists>green gi dg ds.
              green_agent sc = Some green \<and> green ''image'' = Some gi
              \<and> get_image_digest rt gi = Inr dg
              \<and> list_all2 (\<lambda>e d. get_image_digest rt (snd e) = Inr d)
                    (image_entries (get_participants sc)) ds
              \<and> digests = fold (\<lambda>(k, v). AList.update k v)
                    ((''green_agent'', dg) # zip (map fst (image_entries (get_participants sc))) ds) [])
       \<and> map fst digests =
           foldl insert_key [] (''green_agent'' # map fst (image_entries (get_participants sc)))
       \<and> hd (map fst digests) = ''green_agent''
       \<and> (distinct (''green_agent'' # map fst (image_entries (get_participants sc)))
            \<longrightarrow> map fst digests = ''green_agent'' # map fst (image_entries (get_participants sc)))"
proof -
  from assms obtain green gi dg where
    g: "green_agent sc = Some green" "green ''image'' = Some gi" "get_image_digest rt gi = Inr dg"
    and c: "collect_participants rt (get_participants sc) [(''green_agent'', dg)] = Inr digests"
    by (auto simp: collect_image_digests_Inr)
  let ?names = "map fst (image_entries (get_participants sc))"
  from collect_participants_fold[OF c] obtain ds where
    ds: "list_all2 (\<lambda>e d. get_image_digest rt (snd e) = Inr d)
           (image_entries (get_participants sc)) ds"
    and eq: "digests = fold (\<lambda>(k, v). AList.update k v) (zip ?names ds) [(''green_agent'', dg)]"
    by blast
  from eq have "digests = fold (\<lambda>(k, v). AList.update k v)
                    ((''green_agent'', dg) # zip ?names ds) []"
    by simp
  with ds g have first: "\<exists>green gi dg ds.
              green_agent sc = Some green \<and> green ''image'' = Some gi
              \<and> get_image_digest rt gi = Inr dg
              \<and> list_all2 (\<lambda>e d. get_image_digest rt (snd e) = Inr d)
                    (image_entries (get_participants sc)) ds
              \<and> digests = fold (\<lambda>(k, v). AList.update k v)
                    ((''green_agent'', dg) # zip ?names ds) []"
    by blast
  have keys: "map fst digests = foldl insert_key [] (''green_agent'' # ?names)"
    using collect_participants_key_order[OF c] by (simp add: insert_key_def)
  obtain zs where "foldl insert_key [''green_agent''] ?names = [''green_agent''] @ zs"
    using foldl_insert_key_prefix by blast
  with collect_participants_key_order[OF c] have hd: "hd (map fst digests) = ''green_agent''"
    by simp
  have "distinct (''green_agent'' # ?names) \<longrightarrow> map fst digests = ''green_agent'' # ?names"
    using collect_participants_key_order[OF c] foldl_insert_key_distinct[of "[''green_agent'']" ?names]
    by simp
  with first keys hd show ?thesis by blast
qed

theorem collect_image_digests_insertion_order_witness:
  "collect_image_digests rt_example sc_example =
     Inr [(''green_agent'', ''registry.example/app@sha256:abcd''), (''judge'', ''sha256:deadbeef''),
          (''ghost'', ''unknown:gone:1'')]
   \<and> image_entries (get_participants sc_example) =
       [(''judge'', ''local-build:latest''), (''ghost'', ''gone:1'')]
   \<and> map fst [(''green_agent'', ''registry.example/app@sha256:abcd''),
         (''judge'', ''sha256:deadbeef''), (''ghost'', ''unknown:gone:1'')]
       = [''green_agent'', ''judge'', ''ghost'']
   \<and> distinct [''green_agent'', ''judge'', ''ghost'']"
proof -
  have e: "image_entries (get_participants sc_example) =
       [(''judge'', ''local-build:latest''), (''ghost'', ''gone:1'')]"
    by (simp add: get_participants_def sc_example_def image_entries_simps entry_def)
  from collect_image_digests_insertion_order[OF collect_example]
  show ?thesis using collect_example e by (simp add: insert_key_def)
qed

text \<open>
  C8 (as amended). When the participant list holds an entry with a name and no
  \<^verbatim>\<open>image\<close> field, collection returns no mapping; and when collection succeeds on the
  entries before that one, it fails with the lookup error \<^verbatim>\<open>KeyError('image')\<close>. Only an
  image that is present and is the empty string is skipped.
\<close>

theorem collect_image_digests_missing_image:
  assumes "get_participants sc = before @ [p] @ after"
    and "p ''name'' = Some n" and "p ''image'' = None"
  shows "collect_image_digests rt sc \<noteq> Inr digests
         \<and> (collect_image_digests rt (sc\<lparr>participants := Some before\<rparr>) = Inr m
              \<longrightarrow> collect_image_digests rt sc = Inl (KeyError ''image''))"
proof -
  have here: "collect_participants rt ([p] @ after) acc = Inl (KeyError ''image'')" for acc
    using assms(2,3) by (simp add: getitem_def)
  have fails: "collect_participants rt (get_participants sc) acc \<noteq> Inr digests" for acc
    unfolding assms(1) collect_participants_append[of rt before] using here
    by (simp split: sum.splits)
  then have "collect_image_digests rt sc \<noteq> Inr digests"
    by (simp add: collect_image_digests_Inr)
  moreover have "collect_image_digests rt sc = Inl (KeyError ''image'')"
    if "collect_image_digests rt (sc\<lparr>participants := Some before\<rparr>) = Inr m"
  proof -
    from that obtain green gi dg where g: "green_agent sc = Some green"
      "green ''image'' = Some gi" "get_image_digest rt gi = Inr dg"
      and c: "collect_participants rt before [(''green_agent'', dg)] = Inr m"
      by (auto simp: collect_image_digests_Inr get_participants_def)
    have "collect_participants rt (get_participants sc) [(''green_agent'', dg)]
            = Inl (KeyError ''image'')"
      unfolding assms(1) collect_participants_append[of rt before] using c here by simp
    with g show ?thesis by (simp add: collect_image_digests_def getitem_def)
  qed
  ultimately show ?thesis by blast
qed

theorem collect_image_digests_missing_image_witness:
  "get_participants sc_no_image = [] @ [[''name'' \<mapsto> ''judge'']] @ []
   \<and> [''name'' \<mapsto> ''judge''] ''name'' = Some ''judge''
   \<and> [''name'' \<mapsto> ''judge''] ''image'' = None
   \<and> collect_image_digests rt_example (sc_no_image\<lparr>participants := Some []\<rparr>)
       = Inr [(''green_agent'', ''registry.example/app@sha256:abcd'')]
   \<and> collect_image_digests rt_example sc_no_image = Inl (KeyError ''image'')"
proof -
  have ps: "get_participants sc_no_image = [] @ [[''name'' \<mapsto> ''judge'']] @ []"
    by (simp add: get_participants_def sc_no_image_def)
  have p: "[''name'' \<mapsto> ''judge''] ''name'' = Some ''judge''"
    "[''name'' \<mapsto> ''judge''] ''image'' = None"
    by simp_all
  have before: "collect_image_digests rt_example (sc_no_image\<lparr>participants := Some []\<rparr>)
       = Inr [(''green_agent'', ''registry.example/app@sha256:abcd'')]"
    by (simp add: collect_image_digests_def get_participants_def sc_no_image_def getitem_def
        digest_example)
  from collect_image_digests_missing_image[OF ps p, of rt_example _
      "[(''green_agent'', ''registry.example/app@sha256:abcd'')]"] before ps p
  show ?thesis by simp
qed

text \<open>
  C8 as the specification words it fails: an entry with a name and no \<^verbatim>\<open>image\<close> field is
  not skipped, the subscript \<^verbatim>\<open>participant["image"]\<close> raises.
\<close>

theorem collect_image_digests_missing_image_counterexample:
  "collect_image_digests rt_example sc_no_image = Inl (KeyError ''image'')"
  by (simp add: collect_image_digests_def get_participants_def sc_no_image_def getitem_def
      digest_example)

text \<open>
  C9 (as amended). Let the participant list be \<open>before @ [p] @ after\<close>, where \<open>p\<close> has
  the name \<^verbatim>\<open>green_agent\<close> and a non-empty image and no entry of \<open>after\<close> with that name
  has a non-empty image: \<open>p\<close> is the last such entry. Every mapping that collection returns starts with the key
  \<^verbatim>\<open>green_agent\<close>, bound to the digest of the image of \<open>p\<close>, and has that key once: the
  digest of the green agent's own image, which was resolved too, is overwritten.
\<close>

theorem collect_image_digests_green_agent_overwritten:
  assumes "collect_image_digests rt sc = Inr digests"
    and "get_participants sc = before @ [p] @ after"
    and "p ''name'' = Some ''green_agent''" and "p ''image'' = Some i" and "i \<noteq> []"
    and "\<forall>q\<in>set after. q ''name'' = Some ''green_agent'' \<longrightarrow> q ''image'' = Some []"
  shows "\<exists>d green gi dg.
           get_image_digest rt i = Inr d
           \<and> map_of digests ''green_agent'' = Some d
           \<and> hd digests = (''green_agent'', d)
           \<and> distinct (map fst digests)
           \<and> green_agent sc = Some green \<and> green ''image'' = Some gi
           \<and> get_image_digest rt gi = Inr dg"
proof -
  from assms(1) obtain green gi dg where g: "green_agent sc = Some green"
    "green ''image'' = Some gi" "get_image_digest rt gi = Inr dg"
    and c: "collect_participants rt (get_participants sc) [(''green_agent'', dg)] = Inr digests"
    by (auto simp: collect_image_digests_Inr)
  from collect_participants_last_write[OF c[unfolded assms(2)] assms(3-6)]
  obtain d where d: "get_image_digest rt i = Inr d" "map_of digests ''green_agent'' = Some d"
    by blast
  obtain zs where "foldl insert_key [''green_agent'']
      (map fst (image_entries (get_participants sc))) = [''green_agent''] @ zs"
    using foldl_insert_key_prefix by blast
  with collect_participants_key_order[OF c] have keys: "map fst digests = ''green_agent'' # zs"
    by simp
  then obtain v rest where digests: "digests = (''green_agent'', v) # rest"
    by (cases digests) auto
  with d(2) have "hd digests = (''green_agent'', d)" by simp
  with d g collect_participants_distinct[OF c] show ?thesis by simp
qed

theorem collect_image_digests_green_agent_overwritten_witness:
  "collect_image_digests rt_example sc_green_named = Inr [(''green_agent'', ''sha256:deadbeef'')]
   \<and> get_participants sc_green_named = [] @ [entry ''green_agent'' ''local-build:latest''] @ []
   \<and> entry ''green_agent'' ''local-build:latest'' ''name'' = Some ''green_agent''
   \<and> entry ''green_agent'' ''local-build:latest'' ''image'' = Some ''local-build:latest''
   \<and> get_image_digest rt_example ''local-build:latest'' = Inr ''sha256:deadbeef''
   \<and> map_of [(''green_agent'', ''sha256:deadbeef'')] ''green_agent'' = Some ''sha256:deadbeef''"
proof -
  have ps: "get_participants sc_green_named
      = [] @ [entry ''green_agent'' ''local-build:latest''] @ []"
    by (simp add: get_participants_def sc_green_named_def)
  have p: "entry ''green_agent'' ''local-build:latest'' ''name'' = Some ''green_agent''"
    "entry ''green_agent'' ''local-build:latest'' ''image'' = Some ''local-build:latest''"
    "''local-build:latest'' \<noteq> []"
    "\<forall>q\<in>set []. q ''name'' = Some ''green_agent'' \<longrightarrow> q ''image'' = Some []"
    by (simp_all add: entry_def)
  from collect_image_digests_green_agent_overwritten[OF collect_green_named ps p]
  show ?thesis using collect_green_named ps p by (simp add: digest_example)
qed

text \<open>
  C9 as the specification words it fails where two participant entries are named
  \<^verbatim>\<open>green_agent\<close> and have a non-empty image: the first is such an entry, and the key is
  bound to the digest of the image of the second, not of the first.
\<close>

theorem collect_image_digests_green_agent_overwritten_counterexample:
  "entry ''green_agent'' ''local-build:latest'' \<in> set (get_participants sc_green_named_twice)
   \<and> entry ''green_agent'' ''local-build:latest'' ''name'' = Some ''green_agent''
   \<and> entry ''green_agent'' ''local-build:latest'' ''image'' = Some ''local-build:latest''
   \<and> ''local-build:latest'' \<noteq> []
   \<and> get_image_digest rt_example ''local-build:latest'' = Inr ''sha256:deadbeef''
   \<and> collect_image_digests rt_example sc_green_named_twice
       = Inr [(''green_agent'', ''unknown:gone:1'')]
   \<and> map_of [(''green_agent'', ''unknown:gone:1'')] ''green_agent'' \<noteq> Some ''sha256:deadbeef''"
  using collect_green_named_twice
  by (simp add: digest_example get_participants_def sc_green_named_twice_def entry_def)

text \<open>
  C10 (as amended). When the image of the green agent is the empty string, the collector
  still passes it to the resolver: collection raises what the resolver raises on the
  empty reference, and otherwise goes on to the participants with the key
  \<^verbatim>\<open>green_agent\<close> bound to what the resolver returned. Every mapping that collection
  returns has the key \<^verbatim>\<open>green_agent\<close>; it is bound to what the resolver returns for the
  empty reference unless a participant entry named \<^verbatim>\<open>green_agent\<close> has a non-empty image.
\<close>

theorem collect_image_digests_empty_green_image:
  assumes "green_agent sc = Some green" and "green ''image'' = Some []"
  shows "collect_image_digests rt sc =
           (case get_image_digest rt [] of
              Inl e \<Rightarrow> Inl e
            | Inr d \<Rightarrow> collect_participants rt (get_participants sc) [(''green_agent'', d)])
         \<and> (collect_image_digests rt sc = Inr digests \<longrightarrow>
              ''green_agent'' \<in> fst ` set digests
              \<and> ((\<forall>p\<in>set (get_participants sc).
                     p ''name'' = Some ''green_agent'' \<longrightarrow> p ''image'' = Some [])
                   \<longrightarrow> (\<exists>d. get_image_digest rt [] = Inr d
                             \<and> map_of digests ''green_agent'' = Some d)))"
proof (intro conjI impI)
  show "collect_image_digests rt sc =
           (case get_image_digest rt [] of
              Inl e \<Rightarrow> Inl e
            | Inr d \<Rightarrow> collect_participants rt (get_participants sc) [(''green_agent'', d)])"
    using assms by (simp add: collect_image_digests_def getitem_def split: sum.splits)
next
  assume r: "collect_image_digests rt sc = Inr digests"
  then obtain dg where dg: "get_image_digest rt [] = Inr dg"
    and c: "collect_participants rt (get_participants sc) [(''green_agent'', dg)] = Inr digests"
    using assms by (auto simp: collect_image_digests_Inr)
  show "''green_agent'' \<in> fst ` set digests"
    using collect_participants_keys[OF c] by simp
  assume "\<forall>p\<in>set (get_participants sc).
            p ''name'' = Some ''green_agent'' \<longrightarrow> p ''image'' = Some []"
  from collect_participants_untouched[OF c this] dg
  show "\<exists>d. get_image_digest rt [] = Inr d \<and> map_of digests ''green_agent'' = Some d"
    by simp
qed

theorem collect_image_digests_empty_green_image_witness:
  "green_agent sc_empty_green = Some [''image'' \<mapsto> []]
   \<and> get_image_digest rt_example [] = Inr ''unknown:''
   \<and> collect_image_digests rt_example sc_empty_green =
       Inr [(''green_agent'', ''unknown:''), (''judge'', ''sha256:deadbeef'')]
   \<and> map_of [(''green_agent'', ''unknown:''), (''judge'', ''sha256:deadbeef'')] ''green_agent''
       = Some ''unknown:''"
proof -
  have g: "green_agent sc_empty_green = Some [''image'' \<mapsto> []]"
    "[''image'' \<mapsto> []] ''image'' = Some []"
    by (simp_all add: sc_empty_green_def)
  have ps: "get_participants sc_empty_green = [entry ''judge'' ''local-build:latest'']"
    by (simp add: get_participants_def sc_empty_green_def)
  from collect_image_digests_empty_green_image[OF g, of rt_example
      "[(''green_agent'', ''unknown:''), (''judge'', ''sha256:deadbeef'')]"]
  show ?thesis using g collect_empty_green ps by (simp add: digest_example entry_def)
qed

text \<open>
  C10 as the specification words it fails where a participant entry is named
  \<^verbatim>\<open>green_agent\<close>: the key is bound to the digest of the participant's image, not to what
  the resolver returns for the empty reference.
\<close>

theorem collect_image_digests_empty_green_image_counterexample:
  "green_agent sc_empty_green_named = Some [''image'' \<mapsto> []]
   \<and> get_image_digest rt_example [] = Inr ''unknown:''
   \<and> collect_image_digests rt_example sc_empty_green_named
       = Inr [(''green_agent'', ''sha256:deadbeef'')]
   \<and> map_of [(''green_agent'', ''sha256:deadbeef'')] ''green_agent'' \<noteq> Some ''unknown:''"
  using collect_empty_green_named by (simp add: digest_example sc_empty_green_named_def)

subsection \<open>The command line\<close>




subsection \<open>The timestamp\<close>

lemma dec_small: "n < 10 \<Longrightarrow> dec n = [digit_char n]"
  by simp

lemma dec_step: "10 \<le> n \<Longrightarrow> dec n = dec (n div 10) @ [digit_char (n mod 10)]"
  by simp

declare dec.simps [simp del]

lemma is_digit_digit_char: "d < 10 \<Longrightarrow> is_digit (digit_char d)"
  by (simp add: is_digit_def digit_char_def)

lemma digit_char_0: "digit_char 0 = CHR ''0''"
  by (simp add: digit_char_def char_of_eq_iff)

lemma digit_char_not_plus: "d < 10 \<Longrightarrow> digit_char d \<noteq> CHR ''+''"
proof
  assume "d < 10" and "digit_char d = CHR ''+''"
  then have "(of_char (digit_char d) :: nat) = of_char CHR ''+''" by simp
  with \<open>d < 10\<close> show False by (simp add: digit_char_def)
qed

lemma plus_not_digit_char: "d < 10 \<Longrightarrow> CHR ''+'' \<noteq> digit_char d"
  using digit_char_not_plus[of d] by auto

lemma replicate_small:
  "replicate (Suc 0) x = [x]" "replicate 2 x = [x, x]" "replicate 3 x = [x, x, x]"
  "replicate 4 x = [x, x, x, x]"
  by (simp_all add: numeral_eq_Suc)

lemma fmt_d_2:
  assumes "n < 100"
  shows "fmt_d 2 n = [digit_char (n div 10), digit_char (n mod 10)]"
proof (cases "n < 10")
  case True
  then show ?thesis by (simp add: fmt_d_def dec_small digit_char_0)
next
  case False
  with assms have "n div 10 < 10" by simp
  with False show ?thesis by (simp add: fmt_d_def dec_step dec_small)
qed

lemma dec_2: "10 \<le> n \<Longrightarrow> n < 100 \<Longrightarrow> dec n = [digit_char (n div 10), digit_char (n mod 10)]"
  by (simp add: dec_step dec_small)

lemma dec_3:
  assumes "100 \<le> n" and "n < 1000"
  shows "dec n = [digit_char (n div 100), digit_char (n div 10 mod 10), digit_char (n mod 10)]"
proof -
  from assms have "10 \<le> n div 10" "n div 10 < 100" by simp_all
  then have "dec (n div 10) = [digit_char (n div 10 div 10), digit_char (n div 10 mod 10)]"
    by (rule dec_2)
  with assms show ?thesis by (simp add: dec_step div_mult2_eq[symmetric])
qed

lemma dec_4:
  assumes "1000 \<le> n" and "n < 10000"
  shows "dec n = [digit_char (n div 1000), digit_char (n div 100 mod 10),
                  digit_char (n div 10 mod 10), digit_char (n mod 10)]"
proof -
  from assms have "100 \<le> n div 10" "n div 10 < 1000" by simp_all
  then have "dec (n div 10) = [digit_char (n div 10 div 100), digit_char (n div 10 div 10 mod 10),
      digit_char (n div 10 mod 10)]"
    by (rule dec_3)
  with assms show ?thesis by (simp add: dec_step div_mult2_eq[symmetric])
qed

lemma fmt_d_4:
  assumes "n < 10000"
  shows "fmt_d 4 n = [digit_char (n div 1000), digit_char (n div 100 mod 10),
                      digit_char (n div 10 mod 10), digit_char (n mod 10)]"
proof -
  consider "n < 10" | "10 \<le> n" "n < 100" | "100 \<le> n" "n < 1000" | "1000 \<le> n"
    by linarith
  then show ?thesis
  proof cases
    case 1
    then show ?thesis by (simp add: fmt_d_def dec_small digit_char_0 replicate_small)
  next
    case 2
    then show ?thesis by (simp add: fmt_d_def dec_2 digit_char_0 replicate_small)
  next
    case 3
    then show ?thesis by (simp add: fmt_d_def dec_3 digit_char_0)
  next
    case 4
    with assms show ?thesis by (simp add: fmt_d_def dec_4)
  qed
qed

lemma replace_from_suffix:
  "CHR ''+'' \<notin> set xs \<Longrightarrow> replace_from ''+00:00'' ''Z'' (xs @ ''+00:00'') = xs @ ''Z''"
proof (induction xs)
  case Nil
  show ?case by (subst replace_from.simps) (simp add: replace_from.simps[of _ _ "[]"])
next
  case (Cons x xs)
  then have "x \<noteq> CHR ''+''" by auto
  then have "take (length ''+00:00'') ((x # xs) @ ''+00:00'') \<noteq> ''+00:00''"
    by simp
  then have "replace_from ''+00:00'' ''Z'' ((x # xs) @ ''+00:00'')
      = x # replace_from ''+00:00'' ''Z'' (xs @ ''+00:00'')"
    by (subst replace_from.simps) simp
  with Cons show ?case by simp
qed

lemma timestamp_form:
  assumes "valid_datetime dt"
  shows "str_replace (isoformat_seconds dt) ''+00:00'' ''Z'' =
    [digit_char (year dt div 1000), digit_char (year dt div 100 mod 10),
     digit_char (year dt div 10 mod 10), digit_char (year dt mod 10), CHR ''-'',
     digit_char (month dt div 10), digit_char (month dt mod 10), CHR ''-'',
     digit_char (day dt div 10), digit_char (day dt mod 10), CHR ''T'',
     digit_char (hour dt div 10), digit_char (hour dt mod 10), CHR '':'',
     digit_char (minute dt div 10), digit_char (minute dt mod 10), CHR '':'',
     digit_char (second dt div 10), digit_char (second dt mod 10), CHR ''Z'']"
proof -
  from assms have r: "year dt < 10000" "month dt < 100" "day dt < 100" "hour dt < 100"
    "minute dt < 100" "second dt < 100"
    by (simp_all add: valid_datetime_def)
  let ?ts = "[digit_char (year dt div 1000), digit_char (year dt div 100 mod 10),
     digit_char (year dt div 10 mod 10), digit_char (year dt mod 10), CHR ''-'',
     digit_char (month dt div 10), digit_char (month dt mod 10), CHR ''-'',
     digit_char (day dt div 10), digit_char (day dt mod 10), CHR ''T'',
     digit_char (hour dt div 10), digit_char (hour dt mod 10), CHR '':'',
     digit_char (minute dt div 10), digit_char (minute dt mod 10), CHR '':'',
     digit_char (second dt div 10), digit_char (second dt mod 10)]"
  have iso: "isoformat_seconds dt = ?ts @ ''+00:00''"
    using r by (simp add: isoformat_seconds_def fmt_d_2 fmt_d_4)
  from r have "year dt div 1000 < 10" "month dt div 10 < 10" "day dt div 10 < 10"
    "hour dt div 10 < 10" "minute dt div 10 < 10" "second dt div 10 < 10"
    by simp_all
  then have "CHR ''+'' \<notin> set ?ts"
    by (simp add: plus_not_digit_char)
  from replace_from_suffix[OF this] iso show ?thesis
    by (simp add: str_replace_def)
qed

lemma timestamp_pattern_list:
  "timestamp_pattern =
     [Digit, Digit, Digit, Digit, Lit CHR ''-'', Digit, Digit, Lit CHR ''-'', Digit, Digit,
      Lit CHR ''T'', Digit, Digit, Lit CHR '':'', Digit, Digit, Lit CHR '':'', Digit, Digit,
      Lit CHR ''Z'']"
  by (simp add: timestamp_pattern_def replicate_small)

lemma timestamp_matches:
  assumes "valid_datetime dt"
  shows "is_timestamp (str_replace (isoformat_seconds dt) ''+00:00'' ''Z'')"
proof -
  from assms have "year dt < 10000" "month dt < 100" "day dt < 100" "hour dt < 100"
    "minute dt < 100" "second dt < 100"
    by (simp_all add: valid_datetime_def)
  then have "year dt div 1000 < 10" "month dt div 10 < 10" "day dt div 10 < 10"
    "hour dt div 10 < 10" "minute dt div 10 < 10" "second dt div 10 < 10"
    by simp_all
  then show ?thesis
    unfolding timestamp_form[OF assms] is_timestamp_def timestamp_pattern_list
    by (simp add: is_digit_digit_char)
qed

subsection \<open>The provenance document\<close>

lemma hex_value_hex_digit: "d < 16 \<Longrightarrow> hex_value (hex_digit d) = Some d"
  by (auto simp: hex_value_def hex_digit_def Let_def)

lemma parse_chars_backslash:
  "parse_chars (CHR 0x5C # e # tail) =
     (if e = CHR ''u'' then
        (case tail of
           h1 # h2 # h3 # h4 # rest \<Rightarrow>
             (case (hex_value h1, hex_value h2, hex_value h3, hex_value h4) of
                (Some a, Some b, Some c', Some d) \<Rightarrow>
                  (let n = ((a * 16 + b) * 16 + c') * 16 + d
                   in if n < 256
                      then map_option (\<lambda>(s, r). (char_of n # s, r)) (parse_chars rest)
                      else None)
              | _ \<Rightarrow> None)
         | _ \<Rightarrow> None)
      else (case simple_escape e of
              None \<Rightarrow> None
            | Some x \<Rightarrow> map_option (\<lambda>(s, r). (x # s, r)) (parse_chars tail)))"
  by simp

lemma parse_chars_u_escape:
  assumes "n < 256"
  shows "parse_chars (u_escape n @ tail) =
           map_option (\<lambda>(s, r). (char_of n # s, r)) (parse_chars tail)"
proof -
  from assms have z: "n div 4096 mod 16 = 0" "n div 256 mod 16 = 0" "n div 16 mod 16 = n div 16"
    by simp_all
  from assms have d: "n div 16 < 16" by simp
  have v: "n div 16 * 16 + n mod 16 = n" by simp
  have h: "hex_value (hex_digit 0) = Some 0" "hex_value (hex_digit (n div 16)) = Some (n div 16)"
    "hex_value (hex_digit (n mod 16)) = Some (n mod 16)"
    using d by (simp_all add: hex_value_hex_digit)
  show ?thesis
    unfolding u_escape_def z
    using assms by (simp only: append_Cons append_Nil parse_chars_backslash) (simp add: h v)
qed

lemma parse_chars_escape:
  "parse_chars (escape_char c @ tail) = map_option (\<lambda>(s, r). (c # s, r)) (parse_chars tail)"
proof -
  define n where "n = (of_char c :: nat)"
  have c: "char_of n = c" and n256: "n < 256" by (simp_all add: n_def)
  have eq: "c = d \<longleftrightarrow> n = of_char d" for d
    by (auto simp: n_def)
  consider (special) "n = 92 \<or> n = 34 \<or> n = 8 \<or> n = 12 \<or> n = 10 \<or> n = 13 \<or> n = 9"
    | (plain) "32 \<le> n" "n \<le> 126" "n \<noteq> 92" "n \<noteq> 34"
    | (low) "n < 32" "n \<noteq> 8" "n \<noteq> 12" "n \<noteq> 10" "n \<noteq> 13" "n \<noteq> 9"
    | (high) "126 < n"
    by linarith
  then show ?thesis
  proof cases
    case special
    then have "c = CHR 0x5C \<or> c = CHR 0x22 \<or> c = CHR 0x08 \<or> c = CHR 0x0C \<or> c = CHR 0x0A
        \<or> c = CHR 0x0D \<or> c = CHR 0x09"
      by (simp add: eq)
    then show ?thesis
      by (elim disjE) (simp_all add: escape_char_def simple_escape_def)
  next
    case plain
    then have "c \<noteq> CHR 0x5C" "c \<noteq> CHR 0x22" by (simp_all add: eq)
    with plain show ?thesis
      by (simp add: escape_char_def n_def[symmetric])
  next
    case low
    then have ne: "c \<noteq> CHR 0x5C" "c \<noteq> CHR 0x22" by (auto simp: eq)
    with low have "escape_char c = u_escape n"
      by (simp add: escape_char_def n_def[symmetric])
    with parse_chars_u_escape[OF n256, of tail] c show ?thesis by simp
  next
    case high
    then have ne: "c \<noteq> CHR 0x5C" "c \<noteq> CHR 0x22" by (auto simp: eq)
    with high have "escape_char c = u_escape n"
      by (simp add: escape_char_def n_def[symmetric])
    with parse_chars_u_escape[OF n256, of tail] c show ?thesis by simp
  qed
qed

lemma parse_chars_encoded:
  "parse_chars (concat (map escape_char s) @ CHR 0x22 # rest) = Some (s, rest)"
proof (induction s)
  case Nil
  show ?case by simp
next
  case (Cons c s)
  have "parse_chars (concat (map escape_char (c # s)) @ CHR 0x22 # rest)
      = parse_chars (escape_char c @ (concat (map escape_char s) @ CHR 0x22 # rest))"
    by simp
  also have "\<dots> = map_option (\<lambda>(s, r). (c # s, r))
      (parse_chars (concat (map escape_char s) @ CHR 0x22 # rest))"
    by (rule parse_chars_escape)
  finally show ?case using Cons by simp
qed

lemma skip_ws_Cons:
  "is_json_ws c \<Longrightarrow> skip_ws (c # s) = skip_ws s"
  "\<not> is_json_ws c \<Longrightarrow> skip_ws (c # s) = c # s"
  by (simp_all add: skip_ws_def)

lemma skip_ws_spaces: "skip_ws (replicate n CHR '' '' @ s) = skip_ws s"
  by (induction n) (simp_all add: skip_ws_def is_json_ws_def)

lemma skip_ws_newline_indent: "skip_ws (newline_indent level @ s) = skip_ws s"
  using skip_ws_spaces[of "2 * level" s]
  by (simp add: newline_indent_def skip_ws_Cons(1) is_json_ws_def)

lemma skip_ws_encode_string: "skip_ws (encode_string k @ s) = encode_string k @ s"
  by (simp add: encode_string_def skip_ws_def is_json_ws_def)

lemma parse_value_string:
  "parse_value (Suc fuel) (CHR '' '' # encode_string v @ rest) = Some (JString v, rest)"
proof -
  have "skip_ws (CHR '' '' # encode_string v @ rest)
      = CHR 0x22 # (concat (map escape_char v) @ CHR 0x22 # rest)"
    by (simp add: skip_ws_def is_json_ws_def encode_string_def)
  then show ?thesis by (simp add: parse_chars_encoded)
qed

lemma join_Cons: "xs \<noteq> [] \<Longrightarrow> join sep (x # xs) = x @ sep @ join sep xs"
  by (cases xs) simp_all

text \<open>One member whose value is a string, and what \<open>parse_members\<close> does after it.\<close>

lemma parse_members_step:
  "parse_members (Suc (Suc fuel)) (encode_string k @ '': '' @ encode_string v @ tail) acc =
     (case skip_ws tail of
        [] \<Rightarrow> None
      | c2 # r4 \<Rightarrow>
          if c2 = CHR '','' then
            parse_members (Suc fuel) (skip_ws r4) (AList.update k (JString v) acc)
          else if c2 = CHR ''}'' then Some (JObject (AList.update k (JString v) acc), r4)
          else None)"
proof -
  have key: "parse_chars (concat (map escape_char k) @ CHR 0x22 # '': '' @ encode_string v @ tail)
      = Some (k, '': '' @ encode_string v @ tail)"
    by (rule parse_chars_encoded)
  have val: "parse_value (Suc fuel) (CHR '' '' # encode_string v @ tail) = Some (JString v, tail)"
    by (rule parse_value_string)
  have "encode_string k @ '': '' @ encode_string v @ tail
      = CHR 0x22 # (concat (map escape_char k) @ CHR 0x22 # '': '' @ encode_string v @ tail)"
    by (simp add: encode_string_def)
  then show ?thesis
    using key val by (simp add: skip_ws_Cons(2) is_json_ws_def del: parse_value.simps)
qed

lemma skip_ws_join_items:
  assumes "kvs \<noteq> []"
  shows "skip_ws (join sep (map (\<lambda>kv. encode_string (fst kv) @ '': '' @ encode_string (snd kv)) kvs) @ s)
       = join sep (map (\<lambda>kv. encode_string (fst kv) @ '': '' @ encode_string (snd kv)) kvs) @ s"
proof (cases kvs)
  case Nil
  with assms show ?thesis by simp
next
  case (Cons kv rest)
  show ?thesis
  proof (cases rest)
    case Nil
    with Cons show ?thesis using skip_ws_encode_string[of "fst kv"] by simp
  next
    case (Cons kv' rest')
    with \<open>kvs = kv # rest\<close> show ?thesis using skip_ws_encode_string[of "fst kv"] by simp
  qed
qed

lemma parse_members_strings:
  assumes "kvs \<noteq> []" and "length kvs \<le> fuel"
  shows "parse_members (Suc fuel)
           (join ('','' @ newline_indent L)
              (map (\<lambda>kv. encode_string (fst kv) @ '': '' @ encode_string (snd kv)) kvs) @
            newline_indent L' @ ''}'' @ rest) acc
         = Some (JObject (fold (\<lambda>kv. AList.update (fst kv) (JString (snd kv))) kvs acc), rest)"
  using assms
proof (induction kvs arbitrary: fuel acc rule: list_nonempty_induct)
  case (single kv)
  then obtain f where f: "fuel = Suc f" by (cases fuel) auto
  have "skip_ws (newline_indent L' @ ''}'' @ rest) = CHR ''}'' # rest"
    by (simp add: skip_ws_newline_indent skip_ws_Cons(2) is_json_ws_def)
  then show ?case
    unfolding f using parse_members_step[of f "fst kv" "snd kv" "newline_indent L' @ ''}'' @ rest" acc]
    by simp
next
  case (cons kv kvs)
  then obtain f where f: "fuel = Suc f" and len: "length kvs \<le> f" by (cases fuel) auto
  let ?item = "\<lambda>kv. encode_string (fst kv) @ '': '' @ encode_string (snd kv)"
  let ?tail = "join ('','' @ newline_indent L) (map ?item kvs) @ newline_indent L' @ ''}'' @ rest"
  have shape: "join ('','' @ newline_indent L) (map ?item (kv # kvs)) @ newline_indent L' @ ''}'' @ rest
      = encode_string (fst kv) @ '': '' @ encode_string (snd kv) @ (CHR '','' # newline_indent L @ ?tail)"
    using cons.hyps by (simp add: join_Cons)
  have sk: "skip_ws (CHR '','' # newline_indent L @ ?tail) = CHR '','' # newline_indent L @ ?tail"
    by (simp add: skip_ws_Cons(2) is_json_ws_def)
  have sk2: "skip_ws (newline_indent L @ ?tail) = ?tail"
    using skip_ws_join_items[OF cons.hyps] by (simp add: skip_ws_newline_indent)
  have "parse_members (Suc fuel)
          (join ('','' @ newline_indent L) (map ?item (kv # kvs)) @ newline_indent L' @ ''}'' @ rest) acc
      = parse_members (Suc f) ?tail (AList.update (fst kv) (JString (snd kv)) acc)"
    unfolding shape f
    by (simp only: parse_members_step sk sk2 list.case simp_thms if_True)
  also have "\<dots> = Some (JObject (fold (\<lambda>kv. AList.update (fst kv) (JString (snd kv))) kvs
      (AList.update (fst kv) (JString (snd kv)) acc)), rest)"
    by (rule cons.IH[OF len])
  finally show ?case by simp
qed

lemma update_fresh: "k \<notin> fst ` set al \<Longrightarrow> AList.update k v al = al @ [(k, v)]"
  by (induction al) auto

lemma fold_update_distinct:
  "distinct (map fst acc @ map fst kvs) \<Longrightarrow>
     fold (\<lambda>kv. AList.update (fst kv) (JString (snd kv))) kvs acc
       = acc @ map (\<lambda>kv. (fst kv, JString (snd kv))) kvs"
proof (induction kvs arbitrary: acc)
  case Nil
  show ?case by simp
next
  case (Cons kv kvs)
  from Cons.prems have fresh: "fst kv \<notin> fst ` set acc" by auto
  from Cons.prems have "distinct (map fst (acc @ [(fst kv, JString (snd kv))]) @ map fst kvs)"
    by auto
  from Cons.IH[OF this] show ?case by (simp add: update_fresh[OF fresh])
qed

lemma parse_members_value_step:
  assumes "parse_value fuel (CHR '' '' # vtext @ tail) = Some (v, tail)"
  shows "parse_members (Suc fuel) (encode_string k @ '': '' @ vtext @ tail) acc =
     (case skip_ws tail of
        [] \<Rightarrow> None
      | c2 # r4 \<Rightarrow>
          if c2 = CHR '','' then parse_members fuel (skip_ws r4) (AList.update k v acc)
          else if c2 = CHR ''}'' then Some (JObject (AList.update k v acc), r4)
          else None)"
proof -
  have key: "parse_chars (concat (map escape_char k) @ CHR 0x22 # '': '' @ vtext @ tail)
      = Some (k, '': '' @ vtext @ tail)"
    by (rule parse_chars_encoded)
  have "encode_string k @ '': '' @ vtext @ tail
      = CHR 0x22 # (concat (map escape_char k) @ CHR 0x22 # '': '' @ vtext @ tail)"
    by (simp add: encode_string_def)
  then show ?thesis
    using key assms by (simp add: skip_ws_Cons(2) is_json_ws_def del: parse_value.simps)
qed

lemma join_items_quote:
  assumes "kvs \<noteq> []"
  shows "\<exists>x. join sep (map (\<lambda>kv. encode_string (fst kv) @ '': '' @ encode_string (snd kv)) kvs) @ s
           = CHR 0x22 # x"
proof (cases kvs)
  case Nil
  with assms show ?thesis by simp
next
  case (Cons kv rest)
  then show ?thesis by (cases rest) (simp_all add: encode_string_def)
qed

lemma encode_digests_object:
  "ds \<noteq> [] \<Longrightarrow>
   encode level (JObject (map (\<lambda>kv. (fst kv, JString (snd kv))) ds)) =
     ''{'' @ newline_indent (Suc level) @
     join ('','' @ newline_indent (Suc level))
       (map (\<lambda>kv. encode_string (fst kv) @ '': '' @ encode_string (snd kv)) ds) @
     newline_indent level @ ''}''"
  by (simp add: comp_def)

lemma parse_value_object_open:
  "skip_ws s = CHR ''{'' # cs \<Longrightarrow> skip_ws cs = CHR 0x22 # x \<Longrightarrow>
     parse_value (Suc fuel) s = parse_members fuel (CHR 0x22 # x) []"
  by simp

lemma parse_value_digests_object:
  assumes "length ds \<le> fuel"
  shows "parse_value (Suc (Suc fuel))
           (CHR '' '' # encode level (JObject (map (\<lambda>kv. (fst kv, JString (snd kv))) ds)) @ rest)
         = Some (JObject (fold (\<lambda>kv. AList.update (fst kv) (JString (snd kv))) ds []), rest)"
proof (cases "ds = []")
  case True
  then show ?thesis
    by (simp add: skip_ws_Cons is_json_ws_def)
next
  case False
  let ?items = "join ('','' @ newline_indent (Suc level))
       (map (\<lambda>kv. encode_string (fst kv) @ '': '' @ encode_string (snd kv)) ds)"
  let ?tail = "newline_indent level @ ''}'' @ rest"
  obtain x where x: "?items @ ?tail = CHR 0x22 # x"
    using join_items_quote[OF False] by blast
  have members: "parse_members (Suc fuel) (?items @ ?tail) []
      = Some (JObject (fold (\<lambda>kv. AList.update (fst kv) (JString (snd kv))) ds []), rest)"
    by (rule parse_members_strings[OF False assms])
  have shape: "CHR '' '' # encode level (JObject (map (\<lambda>kv. (fst kv, JString (snd kv))) ds)) @ rest
      = CHR '' '' # CHR ''{'' # newline_indent (Suc level) @ (?items @ ?tail)"
    by (simp only: encode_digests_object[OF False] append_Cons append_Nil append_assoc)
  have sk1: "skip_ws (CHR '' '' # CHR ''{'' # newline_indent (Suc level) @ (?items @ ?tail))
      = CHR ''{'' # newline_indent (Suc level) @ (?items @ ?tail)"
    by (simp add: skip_ws_Cons is_json_ws_def)
  have sk2: "skip_ws (newline_indent (Suc level) @ (?items @ ?tail)) = CHR 0x22 # x"
    unfolding skip_ws_newline_indent x by (simp add: skip_ws_Cons is_json_ws_def)
  have "parse_value (Suc (Suc fuel))
      (CHR '' '' # CHR ''{'' # newline_indent (Suc level) @ (?items @ ?tail))
      = parse_members (Suc fuel) (CHR 0x22 # x) []"
    by (rule parse_value_object_open[OF sk1 sk2])
  with members x shape show ?thesis by simp
qed

lemma parse_members_then_comma:
  assumes "parse_value fuel (CHR '' '' # vtext @ tail) = Some (v, tail)"
    and "skip_ws tail = CHR '','' # r4"
  shows "parse_members (Suc fuel) (encode_string k @ '': '' @ vtext @ tail) acc
         = parse_members fuel (skip_ws r4) (AList.update k v acc)"
  unfolding parse_members_value_step[OF assms(1)] assms(2) by simp

lemma parse_members_then_close:
  assumes "parse_value fuel (CHR '' '' # vtext @ tail) = Some (v, tail)"
    and "skip_ws tail = CHR ''}'' # r4"
  shows "parse_members (Suc fuel) (encode_string k @ '': '' @ vtext @ tail) acc
         = Some (JObject (AList.update k v acc), r4)"
  unfolding parse_members_value_step[OF assms(1)] assms(2) by simp

lemma encode_two_items:
  "encode level (JObject [(k1, a), (k2, b)]) =
     CHR ''{'' # newline_indent (Suc level) @
       (encode_string k1 @ '': '' @ encode (Suc level) a @
          (CHR '','' # newline_indent (Suc level) @
             (encode_string k2 @ '': '' @ encode (Suc level) b @ (newline_indent level @ ''}''))))"
  by simp

lemma length_join: "\<forall>x\<in>set xs. x \<noteq> [] \<Longrightarrow> length xs \<le> length (join sep xs)"
proof (induction sep xs rule: join.induct)
  case (1 sep)
  show ?case by simp
next
  case (2 sep x)
  then show ?case by (cases x) simp_all
next
  case (3 sep x y ys)
  then have "length (y # ys) \<le> length (join sep (y # ys))" by simp
  moreover from 3 have "x \<noteq> []" by simp
  then have "1 \<le> length x" by (cases x) simp_all
  ultimately show ?case by simp
qed

lemma length_encode_digests:
  "length ds \<le> length (encode level (JObject (map (\<lambda>kv. (fst kv, JString (snd kv))) ds)))"
proof (cases "ds = []")
  case True
  then show ?thesis by simp
next
  case False
  have "length ds = length (map (\<lambda>kv. encode_string (fst kv) @ '': '' @ encode_string (snd kv)) ds)"
    by simp
  also have "\<dots> \<le> length (join ('','' @ newline_indent (Suc level))
      (map (\<lambda>kv. encode_string (fst kv) @ '': '' @ encode_string (snd kv)) ds))"
    by (rule length_join) (auto simp: encode_string_def)
  finally show ?thesis
    unfolding encode_digests_object[OF False] by simp
qed

lemma parse_provenance_document:
  assumes "length ds \<le> fuel"
  shows "parse_value (Suc (Suc (Suc (Suc fuel))))
           (encode 0 (JObject [(k1, JObject (map (\<lambda>kv. (fst kv, JString (snd kv))) ds)),
                               (k2, JString ts)]))
         = Some (JObject (AList.update k2 (JString ts)
                   (AList.update k1
                      (JObject (fold (\<lambda>kv. AList.update (fst kv) (JString (snd kv))) ds [])) [])),
                 [])"
proof -
  let ?V = "encode (Suc 0) (JObject (map (\<lambda>kv. (fst kv, JString (snd kv))) ds))"
  let ?inner = "JObject (fold (\<lambda>kv. AList.update (fst kv) (JString (snd kv))) ds [])"
  let ?t2 = "newline_indent 0 @ ''}''"
  let ?m2 = "encode_string k2 @ '': '' @ encode (Suc 0) (JString ts) @ ?t2"
  let ?t1 = "CHR '','' # newline_indent (Suc 0) @ ?m2"
  let ?m1 = "encode_string k1 @ '': '' @ ?V @ ?t1"
  have doc: "encode 0 (JObject [(k1, JObject (map (\<lambda>kv. (fst kv, JString (snd kv))) ds)),
                               (k2, JString ts)])
      = CHR ''{'' # newline_indent (Suc 0) @ ?m1"
    by (rule encode_two_items)
  obtain x1 where x1: "?m1 = CHR 0x22 # x1" by (simp add: encode_string_def)
  have sk_doc: "skip_ws (CHR ''{'' # newline_indent (Suc 0) @ ?m1)
      = CHR ''{'' # (newline_indent (Suc 0) @ ?m1)"
    by (simp add: skip_ws_Cons(2) is_json_ws_def)
  have sk_m1: "skip_ws (newline_indent (Suc 0) @ ?m1) = CHR 0x22 # x1"
    unfolding skip_ws_newline_indent x1 by (simp add: skip_ws_Cons(2) is_json_ws_def)
  have step1: "parse_value (Suc (Suc (Suc (Suc fuel)))) (CHR ''{'' # newline_indent (Suc 0) @ ?m1)
      = parse_members (Suc (Suc (Suc fuel))) ?m1 []"
    unfolding x1[symmetric, THEN sym] using parse_value_object_open[OF sk_doc sk_m1] x1 by simp
  have v1: "parse_value (Suc (Suc fuel)) (CHR '' '' # ?V @ ?t1) = Some (?inner, ?t1)"
    by (rule parse_value_digests_object[OF assms])
  have sk_t1: "skip_ws ?t1 = CHR '','' # (newline_indent (Suc 0) @ ?m2)"
    by (simp add: skip_ws_Cons(2) is_json_ws_def)
  have sk_m2: "skip_ws (newline_indent (Suc 0) @ ?m2) = ?m2"
    unfolding skip_ws_newline_indent by (rule skip_ws_encode_string)
  have step2: "parse_members (Suc (Suc (Suc fuel))) ?m1 []
      = parse_members (Suc (Suc fuel)) ?m2 (AList.update k1 ?inner [])"
    unfolding parse_members_then_comma[OF v1 sk_t1] sk_m2 by (rule refl)
  have v2: "parse_value (Suc fuel) (CHR '' '' # encode (Suc 0) (JString ts) @ ?t2)
      = Some (JString ts, ?t2)"
    using parse_value_string[of fuel ts ?t2] by simp
  have sk_t2: "skip_ws ?t2 = CHR ''}'' # []"
    unfolding skip_ws_newline_indent by (simp add: skip_ws_Cons(2) is_json_ws_def)
  have step3: "parse_members (Suc (Suc fuel)) ?m2 (AList.update k1 ?inner [])
      = Some (JObject (AList.update k2 (JString ts) (AList.update k1 ?inner [])), [])"
    by (rule parse_members_then_close[OF v2 sk_t2])
  show ?thesis
    unfolding doc step1 step2 step3 by (rule refl)
qed

lemma json_loads_provenance:
  assumes "distinct (map fst ds)"
  shows "json_loads (json_dumps_indent2
           (JObject [(''image_digests'', JObject (map (\<lambda>kv. (fst kv, JString (snd kv))) ds)),
                     (''timestamp'', JString ts)]))
         = Some (JObject [(''image_digests'', JObject (map (\<lambda>kv. (fst kv, JString (snd kv))) ds)),
                          (''timestamp'', JString ts)])"
proof -
  let ?obj = "JObject [(''image_digests'', JObject (map (\<lambda>kv. (fst kv, JString (snd kv))) ds)),
                       (''timestamp'', JString ts)]"
  let ?V = "encode (Suc 0) (JObject (map (\<lambda>kv. (fst kv, JString (snd kv))) ds))"
  define n where "n = length (encode 0 ?obj)"
  have "length ?V + 3 \<le> n"
    unfolding n_def encode_two_items by (simp add: newline_indent_def del: encode.simps)
  with length_encode_digests[of ds "Suc 0"] have bound: "length ds + 3 \<le> n"
    by linarith
  define fuel where "fuel = n - 3"
  from bound have fuel: "n = Suc (Suc (Suc fuel))" and enough: "length ds \<le> fuel"
    by (simp_all add: fuel_def)
  have inner: "fold (\<lambda>kv. AList.update (fst kv) (JString (snd kv))) ds []
      = map (\<lambda>kv. (fst kv, JString (snd kv))) ds"
    using fold_update_distinct[of "[]" ds] assms by simp
  have "parse_value (Suc n) (encode 0 ?obj) = Some (?obj, [])"
    unfolding fuel parse_provenance_document[OF enough] inner by simp
  then show ?thesis
    by (simp add: json_loads_def json_dumps_indent2_def skip_ws_def n_def
        del: encode.simps parse_value.simps)
qed

text \<open>The mappings that collection returns have distinct keys, as every dict has.\<close>

lemma collect_image_digests_distinct_keys:
  "collect_image_digests rt sc = Inr digests \<Longrightarrow> distinct (map fst digests)"
proof -
  assume "collect_image_digests rt sc = Inr digests"
  then obtain dg where
    "collect_participants rt (get_participants sc) [(''green_agent'', dg)] = Inr digests"
    by (auto simp: collect_image_digests_Inr)
  from collect_participants_distinct[OF this] show ?thesis by simp
qed

text \<open>
  C5. Let the clock give a value within the ranges of \<^verbatim>\<open>datetime\<close> and let the keys of the
  mapping be distinct, as the keys of a dict are. (1) \<^verbatim>\<open>write_provenance\<close> returns when the
  output path is not a directory and can be opened for writing. (2) When it returns, the
  output path holds a document that parses as a JSON object with exactly the two keys
  \<^verbatim>\<open>image_digests\<close> and \<^verbatim>\<open>timestamp\<close>, in this order: the first is bound to an object
  with the keys of the mapping, in their order, each bound to the string the mapping
  binds it to; the second is bound to a string that matches the pattern of the timestamp
  (four digits, \<^verbatim>\<open>-\<close>, two digits, \<^verbatim>\<open>-\<close>, two digits, \<^verbatim>\<open>T\<close>, two digits, \<^verbatim>\<open>:\<close>, two
  digits, \<^verbatim>\<open>:\<close>, two digits, \<^verbatim>\<open>Z\<close>), namely the clock's value in ISO format to the
  second with the offset \<^verbatim>\<open>+00:00\<close> replaced by \<^verbatim>\<open>Z\<close>.
\<close>

theorem write_provenance_document:
  assumes "valid_datetime (utc_now e)" and "distinct (map fst image_digests)"
  shows "(files w output_path \<noteq> Some Directory \<and> writable e output_path
            \<longrightarrow> (\<exists>w'. write_provenance e output_path image_digests w = Inr w'))
         \<and> (write_provenance e output_path image_digests w = Inr w'
            \<longrightarrow> (\<exists>doc ts.
                   files w' output_path = Some (File doc)
                   \<and> json_loads doc =
                       Some (JObject
                         [(''image_digests'',
                           JObject (map (\<lambda>kv. (fst kv, JString (snd kv))) image_digests)),
                          (''timestamp'', JString ts)])
                   \<and> ts = str_replace (isoformat_seconds (utc_now e)) ''+00:00'' ''Z''
                   \<and> is_timestamp ts))"
proof (intro conjI impI)
  assume "files w output_path \<noteq> Some Directory \<and> writable e output_path"
  then show "\<exists>w'. write_provenance e output_path image_digests w = Inr w'"
    by (simp add: write_provenance_def)
next
  assume "write_provenance e output_path image_digests w = Inr w'"
  then have written: "files w' output_path
      = Some (File (json_dumps_indent2 (provenance e image_digests)))"
    by (auto simp: write_provenance_def split: if_splits)
  let ?ts = "str_replace (isoformat_seconds (utc_now e)) ''+00:00'' ''Z''"
  have "json_loads (json_dumps_indent2 (provenance e image_digests))
      = Some (JObject
          [(''image_digests'', JObject (map (\<lambda>kv. (fst kv, JString (snd kv))) image_digests)),
           (''timestamp'', JString ?ts)])"
    unfolding provenance_def by (rule json_loads_provenance[OF assms(2)])
  with written timestamp_matches[OF assms(1)]
  show "\<exists>doc ts.
          files w' output_path = Some (File doc)
          \<and> json_loads doc =
              Some (JObject
                [(''image_digests'',
                  JObject (map (\<lambda>kv. (fst kv, JString (snd kv))) image_digests)),
                 (''timestamp'', JString ts)])
          \<and> ts = str_replace (isoformat_seconds (utc_now e)) ''+00:00'' ''Z''
          \<and> is_timestamp ts"
    by blast
qed

lemma timestamp_example:
  "str_replace (isoformat_seconds (utc_now env_example)) ''+00:00'' ''Z'' = ''2026-11-04T09:05:07Z''"
proof -
  have "valid_datetime (utc_now env_example)"
    by (simp add: valid_datetime_def env_example_def)
  from timestamp_form[OF this] show ?thesis
    by (simp add: env_example_def digit_char_def char_of_eq_iff)
qed

theorem write_provenance_document_witness:
  "valid_datetime (utc_now env_example)
   \<and> distinct (map fst [(''green_agent'', ''registry.example/app@sha256:abcd''),
                         (''judge'', ''sha256:deadbeef'')])
   \<and> files world_empty ''provenance.json'' \<noteq> Some Directory
   \<and> writable env_example ''provenance.json''
   \<and> write_provenance env_example ''provenance.json''
         [(''green_agent'', ''registry.example/app@sha256:abcd''), (''judge'', ''sha256:deadbeef'')]
         world_empty
       = Inr (world_empty\<lparr>files := [''provenance.json'' \<mapsto>
           File (json_dumps_indent2 (provenance env_example
             [(''green_agent'', ''registry.example/app@sha256:abcd''),
              (''judge'', ''sha256:deadbeef'')]))]\<rparr>)
   \<and> json_loads (json_dumps_indent2 (provenance env_example
         [(''green_agent'', ''registry.example/app@sha256:abcd''), (''judge'', ''sha256:deadbeef'')]))
       = Some (JObject
           [(''image_digests'',
             JObject [(''green_agent'', JString ''registry.example/app@sha256:abcd''),
                      (''judge'', JString ''sha256:deadbeef'')]),
            (''timestamp'', JString ''2026-11-04T09:05:07Z'')])
   \<and> is_timestamp ''2026-11-04T09:05:07Z''"
proof -
  let ?ds = "[(''green_agent'', ''registry.example/app@sha256:abcd''), (''judge'', ''sha256:deadbeef'')]"
  let ?w' = "world_empty\<lparr>files := [''provenance.json'' \<mapsto>
           File (json_dumps_indent2 (provenance env_example ?ds))]\<rparr>"
  have valid: "valid_datetime (utc_now env_example)"
    by (simp add: valid_datetime_def env_example_def)
  have keys: "distinct (map fst ?ds)" by simp
  have env: "files world_empty ''provenance.json'' \<noteq> Some Directory"
    "writable env_example ''provenance.json''"
    by (simp_all add: world_empty_def env_example_def)
  have wrote: "write_provenance env_example ''provenance.json'' ?ds world_empty = Inr ?w'"
    using env by (simp add: write_provenance_def world_empty_def)
  have held: "files ?w' ''provenance.json''
      = Some (File (json_dumps_indent2 (provenance env_example ?ds)))"
    by simp
  from write_provenance_document[OF valid keys, of world_empty "''provenance.json''" ?w'] wrote
  obtain doc ts where "files ?w' ''provenance.json'' = Some (File doc)"
    and "json_loads doc = Some (JObject
           [(''image_digests'', JObject (map (\<lambda>kv. (fst kv, JString (snd kv))) ?ds)),
            (''timestamp'', JString ts)])"
    and "ts = str_replace (isoformat_seconds (utc_now env_example)) ''+00:00'' ''Z''"
    and "is_timestamp ts"
    by blast
  with held timestamp_example valid keys env wrote show ?thesis by simp
qed

end
